theory Spec2Isabelle
  imports Complex_Main "HOL-Library.Multiset" "HOL-Library.Char_ord"
    "HOL-Library.List_Lexorder" "HOL-Library.Product_Lexorder"
begin

section \<open>The bulk loader of the listings schema (loader.py)\<close>

text \<open>
  The loader stages a cleaned CSV file as TEXT columns and then runs a fixed sequence of
  SQL statements inside one transaction. The embedding below follows loader.py statement
  by statement: a table is the list of its rows, a nullable column is an \<open>option\<close>,
  a statement is a function from the tables it reads to the table it writes, and a
  statement that PostgreSQL aborts with an error returns \<open>Inl\<close>.

  Strings are lists of one-byte characters, so the model speaks about ASCII input:
  \<open>lower\<close>, \<open>\\d\<close> and \<open>length\<close> are the ASCII ones.
\<close>

subsection \<open>Values and errors\<close>

type_synonym pgtext = "string option"
type_synonym numeric = rat
type_synonym timestamptz = int

datatype error =
    MissingHeaders "string list"
  | SyntaxError
  | DuplicateColumn
  | BadCopyRow
  | InvalidTimestamp
  | SmallintOutOfRange
  | IntegerOutOfRange
  | NotNullViolation
  | CardinalityViolation

definition ebind :: "error + 'a \<Rightarrow> ('a \<Rightarrow> error + 'b) \<Rightarrow> error + 'b" where
  "ebind m f = (case m of Inl e \<Rightarrow> Inl e | Inr v \<Rightarrow> f v)"

fun collect :: "(error + 'a) list \<Rightarrow> error + 'a list" where
  "collect [] = Inr []"
| "collect (x # xs) =
     (case x of Inl e \<Rightarrow> Inl e
      | Inr v \<Rightarrow> (case collect xs of Inl e \<Rightarrow> Inl e | Inr vs \<Rightarrow> Inr (v # vs)))"

subsection \<open>The SQL string functions the loader calls\<close>

definition is_digit :: "char \<Rightarrow> bool" where
  "is_digit c = (c \<in> set ''0123456789'')"

definition digit_val :: "char \<Rightarrow> int" where
  "digit_val c = (case map_of (zip ''0123456789'' [0, 1, 2, 3, 4, 5, 6, 7, 8, 9]) c of
                    Some d \<Rightarrow> d | None \<Rightarrow> 0)"

definition digits_value :: "string \<Rightarrow> int" where
  "digits_value ds = foldl (\<lambda>a c. 10 * a + digit_val c) 0 ds"

definition lower_char :: "char \<Rightarrow> char" where
  "lower_char c =
     (case map_of (zip ''ABCDEFGHIJKLMNOPQRSTUVWXYZ'' ''abcdefghijklmnopqrstuvwxyz'') c of
        Some d \<Rightarrow> d | None \<Rightarrow> c)"

definition lower :: "string \<Rightarrow> string" where
  "lower s = map lower_char s"

text \<open>\<open>btrim(s)\<close> with one argument removes spaces from both ends.\<close>

definition btrim :: "string \<Rightarrow> string" where
  "btrim s = rev (dropWhile (\<lambda>c. c = CHR '' '') (rev (dropWhile (\<lambda>c. c = CHR '' '') s)))"

text \<open>\<open>s IS NULL OR btrim(s) = ''\<close>, the first branch of every parsing CASE.\<close>

definition null_or_blank :: "pgtext \<Rightarrow> bool" where
  "null_or_blank t = (case t of None \<Rightarrow> True | Some s \<Rightarrow> btrim s = [])"

text \<open>\<open>NULLIF(btrim(s), '')\<close>.\<close>

definition nullif_btrim :: "pgtext \<Rightarrow> pgtext" where
  "nullif_btrim t = (case t of None \<Rightarrow> None
                     | Some s \<Rightarrow> (if btrim s = [] then None else Some (btrim s)))"

text \<open>\<open>regexp_replace(s, '\\D', '', 'g')\<close> and \<open>regexp_replace(s, '[^0-9]', '', 'g')\<close>.\<close>

definition strip_non_digits :: "string \<Rightarrow> string" where
  "strip_non_digits s = filter is_digit s"

text \<open>\<open>regexp_replace(s, '[^0-9\\.-]', '', 'g')\<close>.\<close>

definition strip_non_numeric :: "string \<Rightarrow> string" where
  "strip_non_numeric s = filter (\<lambda>c. is_digit c \<or> c = CHR ''.'' \<or> c = CHR ''-'') s"

text \<open>\<open>lpad(s, n, '0')\<close>: truncates a longer string, pads a shorter one on the left.\<close>

definition lpad0 :: "string \<Rightarrow> nat \<Rightarrow> string" where
  "lpad0 s n = (if n \<le> length s then take n s else replicate (n - length s) CHR ''0'' @ s)"

text \<open>The regular expression \<open>^-?\\d+(\\.\\d+)?$\<close>, read off as a recogniser.\<close>

definition unsigned_part :: "string \<Rightarrow> string" where
  "unsigned_part s = (case s of [] \<Rightarrow> [] | c # t \<Rightarrow> (if c = CHR ''-'' then t else s))"

definition int_digits :: "string \<Rightarrow> string" where
  "int_digits s = takeWhile is_digit (unsigned_part s)"

definition after_int :: "string \<Rightarrow> string" where
  "after_int s = dropWhile is_digit (unsigned_part s)"

definition frac_digits :: "string \<Rightarrow> string" where
  "frac_digits s = (case after_int s of [] \<Rightarrow> [] | c # t \<Rightarrow> t)"

definition matches_decimal :: "string \<Rightarrow> bool" where
  "matches_decimal s =
     (int_digits s \<noteq> [] \<and>
      (case after_int s of
         [] \<Rightarrow> True
       | c # t \<Rightarrow> c = CHR ''.'' \<and> t \<noteq> [] \<and> list_all is_digit t))"

text \<open>\<open>s::numeric\<close> on a string that matches the pattern above.\<close>

definition to_numeric :: "string \<Rightarrow> numeric" where
  "to_numeric s =
     (let m = of_int (digits_value (int_digits s))
              + of_int (digits_value (frac_digits s)) / 10 ^ length (frac_digits s)
      in (case s of [] \<Rightarrow> m | c # t \<Rightarrow> (if c = CHR ''-'' then - m else m)))"

text \<open>\<open>round(x)\<close> on numeric: to the nearest integer, ties away from zero.\<close>

definition round_numeric :: "numeric \<Rightarrow> int" where
  "round_numeric x = (if 0 \<le> x then \<lfloor>x + 1 / 2\<rfloor> else - \<lfloor>- x + 1 / 2\<rfloor>)"

text \<open>The casts \<open>::int\<close> and \<open>::smallint\<close> raise outside their range.\<close>

definition cast_int :: "int \<Rightarrow> error + int" where
  "cast_int n = (if - 2147483648 \<le> n \<and> n \<le> 2147483647 then Inr n else Inl IntegerOutOfRange)"

definition cast_smallint :: "int \<Rightarrow> error + int" where
  "cast_smallint n = (if - 32768 \<le> n \<and> n \<le> 32767 then Inr n else Inl SmallintOutOfRange)"

subsection \<open>Header helpers\<close>

definition EXPECTED :: "string list" where
  "EXPECTED =
     [''listing_id'', ''transaction_type'', ''item_type'', ''item_subtype'',
      ''start_date'', ''change_date'',
      ''price'', ''area'', ''site_area'', ''floor'', ''room_count'', ''balcony_count'',
      ''terrace_count'', ''terrace_area'',
      ''build_year'', ''is_new_construction'', ''has_passenger_lift'', ''has_cellar'',
      ''is_furnished'',
      ''city'', ''zipcode'', ''description_fr'']"

text \<open>\<open>lc.index(c)\<close> for a \<open>c\<close> that occurs in \<open>lc\<close>.\<close>

fun index_of :: "'a \<Rightarrow> 'a list \<Rightarrow> nat" where
  "index_of c [] = 0"
| "index_of c (x # xs) = (if x = c then 0 else Suc (index_of c xs))"

text \<open>
  \<open>assert_expected_headers\<close> raises when a logical column is missing and otherwise returns
  the dictionary from each logical name to the header's own spelling.
\<close>

definition assert_expected_headers :: "string list \<Rightarrow> error + (string \<rightharpoonup> string)" where
  "assert_expected_headers cols =
     (let lc = map lower cols;
          missing = filter (\<lambda>c. c \<notin> set lc) EXPECTED
      in if missing \<noteq> [] then Inl (MissingHeaders missing)
         else Inr (map_of (map (\<lambda>c. (c, cols ! index_of c lc)) EXPECTED)))"

subsection \<open>Small SQL expression helpers\<close>

definition norm_zip_5 :: "pgtext \<Rightarrow> pgtext" where
  "norm_zip_5 t =
     (if null_or_blank t then None
      else (let d = strip_non_digits (the t)
            in if 1 \<le> length d \<and> length d \<le> 5 \<and> list_all is_digit d
               then Some (lpad0 d 5) else None))"

definition bool_or_null :: "pgtext \<Rightarrow> bool option" where
  "bool_or_null t =
     (if null_or_blank t then None
      else if lower (the t) \<in> set [''true'', ''t'', ''1'', ''yes'', ''y'', ''oui''] then Some True
      else if lower (the t) \<in> set [''false'', ''f'', ''0'', ''no'', ''n'', ''non''] then Some False
      else None)"

definition year_1800_2100 :: "pgtext \<Rightarrow> error + int option" where
  "year_1800_2100 t =
     (if null_or_blank t then Inr None
      else (let d = strip_non_digits (the t)
            in if d \<noteq> [] \<and> list_all is_digit d
               then ebind (cast_int (round_numeric (of_int (digits_value d))))
                      (\<lambda>y. if 1800 \<le> y \<and> y \<le> 2100
                           then ebind (cast_smallint (round_numeric (of_int (digits_value d))))
                                  (\<lambda>v. Inr (Some v))
                           else Inr None)
               else Inr None))"

definition num_nonneg :: "pgtext \<Rightarrow> numeric option" where
  "num_nonneg t =
     (if null_or_blank t then None
      else (let n = strip_non_numeric (the t)
            in if matches_decimal n \<and> to_numeric n \<ge> 0 then Some (to_numeric n) else None))"

definition smallint_nonneg :: "pgtext \<Rightarrow> error + int option" where
  "smallint_nonneg t =
     (if null_or_blank t then Inr None
      else (let n = strip_non_numeric (the t)
            in if matches_decimal n \<and> round_numeric (to_numeric n) \<ge> 0
               then ebind (cast_smallint (round_numeric (to_numeric n))) (\<lambda>v. Inr (Some v))
               else Inr None))"

definition floor_bounded :: "pgtext \<Rightarrow> int \<Rightarrow> int \<Rightarrow> error + int option" where
  "floor_bounded t lo hi =
     (if null_or_blank t then Inr None
      else (let n = strip_non_numeric (the t)
            in if matches_decimal n
               then ebind (cast_int (round_numeric (to_numeric n)))
                      (\<lambda>f. if lo \<le> f \<and> f \<le> hi
                           then ebind (cast_smallint (round_numeric (to_numeric n)))
                                  (\<lambda>v. Inr (Some v))
                           else Inr None)
               else Inr None))"

text \<open>
  \<open>NULLIF(s, '')::timestamptz\<close>. The cast is PostgreSQL's input function for timestamps;
  it is the parameter \<open>tz\<close>, which returns \<open>None\<close> where the cast raises.
\<close>

definition ts_or_null :: "(string \<Rightarrow> timestamptz option) \<Rightarrow> pgtext \<Rightarrow> error + timestamptz option" where
  "ts_or_null tz t =
     (case t of None \<Rightarrow> Inr None
      | Some s \<Rightarrow> (if s = [] then Inr None
                   else (case tz s of None \<Rightarrow> Inl InvalidTimestamp | Some v \<Rightarrow> Inr (Some v))))"

subsection \<open>Tables\<close>

text \<open>
  One row of \<open>stg_clean_csv\<close>, read through the logical column names. The staging table has
  more columns when the file has more; the loader never reads them.
\<close>

record stg_row =
  sc_listing_id :: pgtext
  sc_transaction_type :: pgtext
  sc_item_type :: pgtext
  sc_item_subtype :: pgtext
  sc_start_date :: pgtext
  sc_change_date :: pgtext
  sc_price :: pgtext
  sc_area :: pgtext
  sc_site_area :: pgtext
  sc_floor :: pgtext
  sc_room_count :: pgtext
  sc_balcony_count :: pgtext
  sc_terrace_count :: pgtext
  sc_terrace_area :: pgtext
  sc_build_year :: pgtext
  sc_is_new_construction :: pgtext
  sc_has_passenger_lift :: pgtext
  sc_has_cellar :: pgtext
  sc_is_furnished :: pgtext
  sc_city :: pgtext
  sc_zipcode :: pgtext
  sc_description_fr :: pgtext

text \<open>
  The persistent tables. Their DDL is not part of the loader; the columns are the ones the
  statements name. \<open>transaction_type\<close>, \<open>item_type\<close>, \<open>city\<close> and \<open>zipcode\<close> have the same
  shape: a generated id and a code (the name, for a city).
\<close>

record dim_row =
  dim_id :: nat
  dim_code :: string

record item_subtype_row =
  ist_item_subtype_id :: nat
  ist_item_type_id :: nat
  ist_code :: string

record location_row =
  loc_location_id :: nat
  loc_city_id :: nat
  loc_zipcode_id :: nat

record listing_row =
  l_id :: nat
  l_external_listing_id :: string
  l_transaction_type_id :: nat
  l_item_subtype_id :: nat
  l_location_id :: nat
  l_build_year :: "int option"
  l_is_new_construction :: "bool option"
  l_has_passenger_lift :: "bool option"
  l_has_cellar :: "bool option"
  l_is_furnished :: "bool option"

record description_row =
  ld_listing_id :: nat
  ld_lang :: string
  ld_body :: string

record version_row =
  lv_listing_id :: nat
  lv_valid_from :: timestamptz
  lv_valid_to :: "timestamptz option"
  lv_price :: "numeric option"
  lv_area :: "numeric option"
  lv_site_area :: "numeric option"
  lv_floor :: "int option"
  lv_room_count :: "int option"
  lv_balcony_count :: "int option"
  lv_terrace_count :: "int option"
  lv_terrace_area :: "numeric option"
  lv_source_change_ts :: "timestamptz option"

text \<open>One row of \<open>stg_listing_incoming\<close> and of \<open>stg_delta\<close>.\<close>

record incoming_row =
  inc_listing_id :: nat
  inc_valid_from :: timestamptz
  inc_source_change_ts :: "timestamptz option"
  inc_price :: "numeric option"
  inc_area :: "numeric option"
  inc_site_area :: "numeric option"
  inc_floor :: "int option"
  inc_room_count :: "int option"
  inc_balcony_count :: "int option"
  inc_terrace_count :: "int option"
  inc_terrace_area :: "numeric option"

record database =
  transaction_type :: "dim_row list"
  item_type :: "dim_row list"
  item_subtype :: "item_subtype_row list"
  city :: "dim_row list"
  zipcode :: "dim_row list"
  location :: "location_row list"
  listing :: "listing_row list"
  listing_description :: "description_row list"
  listing_version :: "version_row list"

definition empty_db :: database where
  "empty_db = \<lparr>transaction_type = [], item_type = [], item_subtype = [], city = [],
     zipcode = [], location = [], listing = [], listing_description = [],
     listing_version = []\<rparr>"

text \<open>A generated id: one more than every id in the table.\<close>

definition next_id :: "nat list \<Rightarrow> nat" where
  "next_id ids = Suc (fold max ids 0)"

subsection \<open>Staging\<close>

text \<open>
  \<open>create_temp_staging\<close> creates one TEXT column per header cell, under the header's own
  spelling, pasted into the statement unquoted. A cell that the parser does not read as one
  column name (a reserved word, a name with a blank, an empty cell) makes the CREATE a syntax
  error; which cells those are is the parser's matter and is the parameter \<open>column_ok\<close>.
  Unquoted names fold to lower case, so two cells that differ in case only are the same
  column and the CREATE fails. \<open>copy_csv_into_staging\<close> fails on a line whose number of
  cells is not the header's. A cell is NULL (\<open>None\<close>) when the CSV field is empty and
  unquoted.
\<close>

definition create_temp_staging :: "(string \<Rightarrow> bool) \<Rightarrow> string list \<Rightarrow> error + unit" where
  "create_temp_staging column_ok header_cols =
     (if \<not> list_all column_ok header_cols then Inl SyntaxError
      else if distinct (map lower header_cols) then Inr ()
      else Inl DuplicateColumn)"

definition copy_csv_into_staging :: "string list \<Rightarrow> pgtext list list \<Rightarrow> error + pgtext list list" where
  "copy_csv_into_staging header_cols lines =
     (if list_all (\<lambda>cells. length cells = length header_cols) lines then Inr lines
      else Inl BadCopyRow)"

text \<open>\<open>sc.{h[c]}\<close>: the column of the staging table that the spelling \<open>h[c]\<close> names.\<close>

definition sc_col :: "string list \<Rightarrow> (string \<rightharpoonup> string) \<Rightarrow> pgtext list \<Rightarrow> string \<Rightarrow> pgtext" where
  "sc_col header_cols h cells c = cells ! index_of (lower (the (h c))) (map lower header_cols)"

definition staged :: "string list \<Rightarrow> (string \<rightharpoonup> string) \<Rightarrow> pgtext list \<Rightarrow> stg_row" where
  "staged header_cols h cells =
     \<lparr>sc_listing_id = sc_col header_cols h cells ''listing_id'',
      sc_transaction_type = sc_col header_cols h cells ''transaction_type'',
      sc_item_type = sc_col header_cols h cells ''item_type'',
      sc_item_subtype = sc_col header_cols h cells ''item_subtype'',
      sc_start_date = sc_col header_cols h cells ''start_date'',
      sc_change_date = sc_col header_cols h cells ''change_date'',
      sc_price = sc_col header_cols h cells ''price'',
      sc_area = sc_col header_cols h cells ''area'',
      sc_site_area = sc_col header_cols h cells ''site_area'',
      sc_floor = sc_col header_cols h cells ''floor'',
      sc_room_count = sc_col header_cols h cells ''room_count'',
      sc_balcony_count = sc_col header_cols h cells ''balcony_count'',
      sc_terrace_count = sc_col header_cols h cells ''terrace_count'',
      sc_terrace_area = sc_col header_cols h cells ''terrace_area'',
      sc_build_year = sc_col header_cols h cells ''build_year'',
      sc_is_new_construction = sc_col header_cols h cells ''is_new_construction'',
      sc_has_passenger_lift = sc_col header_cols h cells ''has_passenger_lift'',
      sc_has_cellar = sc_col header_cols h cells ''has_cellar'',
      sc_is_furnished = sc_col header_cols h cells ''is_furnished'',
      sc_city = sc_col header_cols h cells ''city'',
      sc_zipcode = sc_col header_cols h cells ''zipcode'',
      sc_description_fr = sc_col header_cols h cells ''description_fr''\<rparr>"

subsection \<open>Dimensions\<close>

text \<open>\<open>btrim(x)\<close> of a nullable column.\<close>

definition btrim_col :: "pgtext \<Rightarrow> pgtext" where
  "btrim_col t = map_option btrim t"

text \<open>\<open>SELECT btrim(x) FROM stg_clean_csv WHERE x IS NOT NULL AND btrim(x) <> ''\<close>.\<close>

definition trimmed_codes :: "(stg_row \<Rightarrow> pgtext) \<Rightarrow> stg_row list \<Rightarrow> string list" where
  "trimmed_codes col stg = [btrim (the (col r)). r \<leftarrow> stg, \<not> null_or_blank (col r)]"

text \<open>
  \<open>INSERT INTO t (code) SELECT DISTINCT ... ON CONFLICT (code) DO NOTHING\<close>: a code that
  the table has is skipped, any other gets a new row. (Which of the new codes gets which id
  is the executor's order; the model takes the order of first occurrence.)
\<close>

definition insert_code :: "string \<Rightarrow> dim_row list \<Rightarrow> dim_row list" where
  "insert_code c t =
     (if c \<in> set (map dim_code t) then t
      else t @ [\<lparr>dim_id = next_id (map dim_id t), dim_code = c\<rparr>])"

definition insert_codes :: "string list \<Rightarrow> dim_row list \<Rightarrow> dim_row list" where
  "insert_codes cs t = fold insert_code (remdups cs) t"

definition insert_subtype :: "nat \<times> string \<Rightarrow> item_subtype_row list \<Rightarrow> item_subtype_row list" where
  "insert_subtype c t =
     (if c \<in> set (map (\<lambda>r. (ist_item_type_id r, ist_code r)) t) then t
      else t @ [\<lparr>ist_item_subtype_id = next_id (map ist_item_subtype_id t),
                  ist_item_type_id = fst c, ist_code = snd c\<rparr>])"

definition insert_location :: "nat \<times> nat \<Rightarrow> location_row list \<Rightarrow> location_row list" where
  "insert_location c t =
     (if c \<in> set (map (\<lambda>r. (loc_city_id r, loc_zipcode_id r)) t) then t
      else t @ [\<lparr>loc_location_id = next_id (map loc_location_id t),
                  loc_city_id = fst c, loc_zipcode_id = snd c\<rparr>])"

text \<open>
  The SELECT of the item_subtype statement: the distinct pairs of trimmed type and
  subtype of the batch, joined to \<open>item_type\<close> on the type code.
\<close>

definition item_subtype_select :: "stg_row list \<Rightarrow> dim_row list \<Rightarrow> (nat \<times> string) list" where
  "item_subtype_select stg its =
     [(dim_id it, snd p).
        p \<leftarrow> remdups [(btrim_col (sc_item_type r), btrim (the (sc_item_subtype r))).
                         r \<leftarrow> stg, \<not> null_or_blank (sc_item_subtype r)],
        it \<leftarrow> its, Some (dim_code it) = fst p]"

definition upsert_dimensions :: "stg_row list \<Rightarrow> database \<Rightarrow> database" where
  "upsert_dimensions stg db =
     (let db1 = db\<lparr>transaction_type :=
                     insert_codes (trimmed_codes sc_transaction_type stg) (transaction_type db)\<rparr>;
          db2 = db1\<lparr>item_type := insert_codes (trimmed_codes sc_item_type stg) (item_type db1)\<rparr>
      in db2\<lparr>item_subtype :=
               fold insert_subtype (item_subtype_select stg (item_type db2)) (item_subtype db2)\<rparr>)"

text \<open>
  The city statement has no ON CONFLICT clause: it filters the names the table has with
  NOT EXISTS and inserts the distinct others.
\<close>

definition insert_city :: "string \<Rightarrow> dim_row list \<Rightarrow> dim_row list" where
  "insert_city c t = t @ [\<lparr>dim_id = next_id (map dim_id t), dim_code = c\<rparr>]"

text \<open>
  The SELECT of the location statement: the distinct pairs of trimmed city and normalised
  zip of the batch, joined to \<open>city\<close> and \<open>zipcode\<close>.
\<close>

definition location_select :: "stg_row list \<Rightarrow> dim_row list \<Rightarrow> dim_row list \<Rightarrow> (nat \<times> nat) list" where
  "location_select stg cs zs =
     [(dim_id c, dim_id z).
        p \<leftarrow> remdups [(btrim_col (sc_city r), norm_zip_5 (sc_zipcode r)). r \<leftarrow> stg],
        c \<leftarrow> cs, Some (dim_code c) = fst p,
        z \<leftarrow> zs, Some (dim_code z) = snd p]"

definition upsert_cities_zipcodes_locations :: "stg_row list \<Rightarrow> database \<Rightarrow> database" where
  "upsert_cities_zipcodes_locations stg db =
     (let db1 = db\<lparr>city :=
                     fold insert_city
                       (remdups [c \<leftarrow> trimmed_codes sc_city stg. c \<notin> set (map dim_code (city db))])
                       (city db)\<rparr>;
          db2 = db1\<lparr>zipcode :=
                      insert_codes (List.map_filter (\<lambda>r. norm_zip_5 (sc_zipcode r)) stg)
                        (zipcode db1)\<rparr>
      in db2\<lparr>location :=
               fold insert_location (location_select stg (city db2) (zipcode db2))
                 (location db2)\<rparr>)"

subsection \<open>ON CONFLICT DO UPDATE\<close>

text \<open>
  \<open>INSERT ... ON CONFLICT (key) DO UPDATE\<close> takes the proposed rows one by one: a row whose
  key the table has updates that row, any other is inserted. PostgreSQL aborts the
  statement when one command would touch the same row twice (two proposed rows of one
  key). \<open>seen\<close> holds the keys proposed so far.
\<close>

fun on_conflict_do_update ::
  "('r \<Rightarrow> 'k) \<Rightarrow> ('r list \<Rightarrow> 'r \<Rightarrow> 'r) \<Rightarrow> ('r \<Rightarrow> 'r \<Rightarrow> 'r) \<Rightarrow> 'k list \<Rightarrow> 'r list \<Rightarrow> 'r list
     \<Rightarrow> error + 'r list" where
  "on_conflict_do_update key ins upd seen [] t = Inr t"
| "on_conflict_do_update key ins upd seen (c # cs) t =
     (if key c \<in> set seen then Inl CardinalityViolation
      else on_conflict_do_update key ins upd (key c # seen) cs
             (if key c \<in> set (map key t)
              then map (\<lambda>r. if key r = key c then upd c r else r) t
              else t @ [ins t c]))"

subsection \<open>Listings\<close>

text \<open>
  The SELECT of \<open>upsert_listings\<close>: one proposed row per staged row and per combination of
  dimension rows it joins. The id is generated at insert; a proposed row carries 0 there.
  \<open>external_listing_id\<close> is never null (the business key of the spec), so a row whose
  trimmed key is empty violates NOT NULL.
\<close>

definition listing_select :: "database \<Rightarrow> stg_row list \<Rightarrow> (error + listing_row) list" where
  "listing_select db stg =
     [ebind (year_1800_2100 (sc_build_year sc))
        (\<lambda>by. case nullif_btrim (sc_listing_id sc) of
                None \<Rightarrow> Inl NotNullViolation
              | Some ext \<Rightarrow>
                  Inr \<lparr>l_id = 0, l_external_listing_id = ext,
                       l_transaction_type_id = dim_id tt,
                       l_item_subtype_id = ist_item_subtype_id st,
                       l_location_id = loc_location_id loc,
                       l_build_year = by,
                       l_is_new_construction = bool_or_null (sc_is_new_construction sc),
                       l_has_passenger_lift = bool_or_null (sc_has_passenger_lift sc),
                       l_has_cellar = bool_or_null (sc_has_cellar sc),
                       l_is_furnished = bool_or_null (sc_is_furnished sc)\<rparr>).
      sc \<leftarrow> stg,
      tt \<leftarrow> transaction_type db, Some (dim_code tt) = btrim_col (sc_transaction_type sc),
      it \<leftarrow> item_type db, Some (dim_code it) = btrim_col (sc_item_type sc),
      st \<leftarrow> item_subtype db,
        Some (ist_code st) = btrim_col (sc_item_subtype sc) \<and> ist_item_type_id st = dim_id it,
      c \<leftarrow> city db, Some (dim_code c) = btrim_col (sc_city sc),
      z \<leftarrow> zipcode db, Some (dim_code z) = norm_zip_5 (sc_zipcode sc),
      loc \<leftarrow> location db, loc_city_id loc = dim_id c \<and> loc_zipcode_id loc = dim_id z]"

definition upsert_listings :: "stg_row list \<Rightarrow> database \<Rightarrow> error + database" where
  "upsert_listings stg db =
     ebind (collect (listing_select db stg))
       (\<lambda>cs. ebind (on_conflict_do_update l_external_listing_id
                      (\<lambda>t c. c\<lparr>l_id := next_id (map l_id t)\<rparr>)
                      (\<lambda>c r. c\<lparr>l_id := l_id r\<rparr>) [] cs (listing db))
               (\<lambda>t. Inr (db\<lparr>listing := t\<rparr>)))"

subsection \<open>Descriptions\<close>

text \<open>
  \<open>src\<close>: the trimmed key and the trimmed body of every staged row whose description is
  not blank.
\<close>

definition description_src :: "stg_row list \<Rightarrow> (pgtext \<times> string) list" where
  "description_src stg =
     [(nullif_btrim (sc_listing_id sc), btrim (the (sc_description_fr sc))).
        sc \<leftarrow> stg, \<not> null_or_blank (sc_description_fr sc)]"

text \<open>
  \<open>pick\<close>: per \<open>ext_id\<close>, the row that \<open>ROW_NUMBER() OVER (PARTITION BY ext_id ORDER BY
  length(body) DESC)\<close> numbers 1. The ORDER BY names the length only, so among the bodies
  of the greatest length the first row is the executor's choice: \<open>tie\<close> is that choice, a
  function of the equally long bodies in the order of the staging table.
\<close>

definition longest_bodies :: "string list \<Rightarrow> string list" where
  "longest_bodies bs = [b \<leftarrow> bs. length b = fold max (map length bs) 0]"

definition description_pick :: "(string list \<Rightarrow> string) \<Rightarrow> (pgtext \<times> string) list \<Rightarrow> (pgtext \<times> string) list" where
  "description_pick tie src =
     [(k, tie (longest_bodies [snd p. p \<leftarrow> src, fst p = k])). k \<leftarrow> remdups (map fst src)]"

definition upsert_descriptions :: "(string list \<Rightarrow> string) \<Rightarrow> stg_row list \<Rightarrow> database \<Rightarrow> error + database" where
  "upsert_descriptions tie stg db =
     ebind (on_conflict_do_update ld_listing_id (\<lambda>t c. c) (\<lambda>c r. c) []
              [\<lparr>ld_listing_id = l_id l, ld_lang = ''fr'', ld_body = snd p\<rparr>.
                 p \<leftarrow> description_pick tie (description_src stg),
                 l \<leftarrow> listing db, Some (l_external_listing_id l) = fst p]
              (listing_description db))
       (\<lambda>t. Inr (db\<lparr>listing_description := t\<rparr>))"

subsection \<open>SCD2: incoming facts, delta, close and insert\<close>

text \<open>
  \<open>stg_listing_incoming\<close>: one typed row per staged row and listing it joins on the trimmed
  key. \<open>valid_from\<close> is \<open>COALESCE(change, start, NOW())\<close>; \<open>now\<close> is the transaction's clock.
  COALESCE evaluates its arguments from the left and stops at the first that is not NULL,
  so \<open>start_date\<close> is cast only when the change timestamp is NULL. A cast that raises aborts
  the statement.
\<close>

definition valid_from_of ::
  "(string \<Rightarrow> timestamptz option) \<Rightarrow> timestamptz \<Rightarrow> timestamptz option \<Rightarrow> pgtext
     \<Rightarrow> error + timestamptz" where
  "valid_from_of tz now change_ts start_date =
     (case change_ts of
        Some c \<Rightarrow> Inr c
      | None \<Rightarrow> ebind (ts_or_null tz start_date)
                  (\<lambda>start_ts. Inr (case start_ts of Some s \<Rightarrow> s | None \<Rightarrow> now)))"

definition incoming_of ::
  "(string \<Rightarrow> timestamptz option) \<Rightarrow> timestamptz \<Rightarrow> stg_row \<Rightarrow> listing_row \<Rightarrow> error + incoming_row" where
  "incoming_of tz now sc l =
     ebind (ts_or_null tz (sc_change_date sc)) (\<lambda>change_ts.
     ebind (valid_from_of tz now change_ts (sc_start_date sc)) (\<lambda>valid_from.
     ebind (floor_bounded (sc_floor sc) (- 5) 300) (\<lambda>fl.
     ebind (smallint_nonneg (sc_room_count sc)) (\<lambda>room.
     ebind (smallint_nonneg (sc_balcony_count sc)) (\<lambda>balc.
     ebind (smallint_nonneg (sc_terrace_count sc)) (\<lambda>terr_cnt.
       Inr \<lparr>inc_listing_id = l_id l,
            inc_valid_from = valid_from,
            inc_source_change_ts = change_ts,
            inc_price = num_nonneg (sc_price sc),
            inc_area = num_nonneg (sc_area sc),
            inc_site_area = num_nonneg (sc_site_area sc),
            inc_floor = fl,
            inc_room_count = room,
            inc_balcony_count = balc,
            inc_terrace_count = terr_cnt,
            inc_terrace_area = num_nonneg (sc_terrace_area sc)\<rparr>))))))"

text \<open>
  \<open>stg_clean_csv sc JOIN listing l ON l.external_listing_id = NULLIF(btrim(sc.listing_id), '')\<close>:
  the pairs of a staged row and a listing with the row's trimmed key. The statement has no
  ORDER BY, so the order in which the pairs come out, and with it the row order of
  \<open>stg_listing_incoming\<close> and of \<open>stg_delta\<close>, is the executor's: the parameter \<open>row_order\<close>,
  which rearranges the pairs listed by \<open>listing_join\<close>.
\<close>

definition listing_join :: "listing_row list \<Rightarrow> stg_row list \<Rightarrow> (stg_row \<times> listing_row) list" where
  "listing_join ls stg =
     [(sc, l). sc \<leftarrow> stg, l \<leftarrow> ls,
               Some (l_external_listing_id l) = nullif_btrim (sc_listing_id sc)]"

definition stg_listing_incoming ::
  "(string \<Rightarrow> timestamptz option) \<Rightarrow> ((stg_row \<times> listing_row) list \<Rightarrow> (stg_row \<times> listing_row) list)
     \<Rightarrow> timestamptz \<Rightarrow> listing_row list \<Rightarrow> stg_row list \<Rightarrow> error + incoming_row list" where
  "stg_listing_incoming tz row_order now ls stg =
     collect (map (\<lambda>(sc, l). incoming_of tz now sc l) (row_order (listing_join ls stg)))"

text \<open>
  \<open>stg_delta\<close>: the incoming rows LEFT JOINed to the open versions of their listing. An
  incoming row with no open version joins one all-NULL row (\<open>cur.listing_id IS NULL\<close>);
  otherwise it is kept once for every open version it IS DISTINCT FROM in a field. On a
  nullable column IS DISTINCT FROM is inequality of options.
\<close>

definition is_open :: "version_row \<Rightarrow> bool" where
  "is_open t = (lv_valid_to t = None)"

definition fields_differ :: "version_row \<Rightarrow> incoming_row \<Rightarrow> bool" where
  "fields_differ cur inc =
     (lv_price cur \<noteq> inc_price inc
      \<or> lv_area cur \<noteq> inc_area inc
      \<or> lv_site_area cur \<noteq> inc_site_area inc
      \<or> lv_floor cur \<noteq> inc_floor inc
      \<or> lv_room_count cur \<noteq> inc_room_count inc
      \<or> lv_balcony_count cur \<noteq> inc_balcony_count inc
      \<or> lv_terrace_count cur \<noteq> inc_terrace_count inc
      \<or> lv_terrace_area cur \<noteq> inc_terrace_area inc)"

definition left_join_open :: "version_row list \<Rightarrow> incoming_row \<Rightarrow> version_row option list" where
  "left_join_open lv inc =
     (let cur = [t \<leftarrow> lv. lv_listing_id t = inc_listing_id inc \<and> is_open t]
      in if cur = [] then [None] else map Some cur)"

definition stg_delta :: "incoming_row list \<Rightarrow> version_row list \<Rightarrow> incoming_row list" where
  "stg_delta incoming lv =
     [inc. inc \<leftarrow> incoming, cur \<leftarrow> left_join_open lv inc,
           (case cur of None \<Rightarrow> True | Some c \<Rightarrow> fields_differ c inc)]"

text \<open>
  The UPDATE closes an open version at the \<open>valid_from\<close> of a delta row of its listing that
  is not earlier than the version. When several delta rows qualify PostgreSQL uses one of
  them, which one is not specified; the model takes the first.
\<close>

definition closes :: "incoming_row \<Rightarrow> version_row \<Rightarrow> bool" where
  "closes d t =
     (lv_listing_id t = inc_listing_id d \<and> is_open t \<and> lv_valid_from t \<le> inc_valid_from d)"

definition close_version :: "incoming_row list \<Rightarrow> version_row \<Rightarrow> version_row" where
  "close_version delta t =
     (case [d \<leftarrow> delta. closes d t] of
        [] \<Rightarrow> t
      | d # ds \<Rightarrow> t\<lparr>lv_valid_to := Some (inc_valid_from d)\<rparr>)"

definition version_of :: "incoming_row \<Rightarrow> version_row" where
  "version_of d =
     \<lparr>lv_listing_id = inc_listing_id d, lv_valid_from = inc_valid_from d, lv_valid_to = None,
      lv_price = inc_price d, lv_area = inc_area d, lv_site_area = inc_site_area d,
      lv_floor = inc_floor d, lv_room_count = inc_room_count d,
      lv_balcony_count = inc_balcony_count d, lv_terrace_count = inc_terrace_count d,
      lv_terrace_area = inc_terrace_area d, lv_source_change_ts = inc_source_change_ts d\<rparr>"

text \<open>
  The INSERT reads \<open>listing_version\<close> as the UPDATE left it; the rows it inserts itself are
  not visible to its own NOT EXISTS.
\<close>

definition has_open :: "version_row list \<Rightarrow> nat \<Rightarrow> bool" where
  "has_open lv lid = (\<exists>t \<in> set lv. lv_listing_id t = lid \<and> is_open t)"

definition insert_versions :: "incoming_row list \<Rightarrow> version_row list \<Rightarrow> version_row list" where
  "insert_versions delta lv =
     lv @ [version_of d. d \<leftarrow> delta, \<not> has_open lv (inc_listing_id d)]"

definition apply_scd2 :: "incoming_row list \<Rightarrow> version_row list \<Rightarrow> version_row list" where
  "apply_scd2 incoming lv =
     (let delta = stg_delta incoming lv
      in if length delta > 0
         then insert_versions delta (map (close_version delta) lv)
         else lv)"

definition build_incoming_and_apply_scd2 ::
  "(string \<Rightarrow> timestamptz option) \<Rightarrow> ((stg_row \<times> listing_row) list \<Rightarrow> (stg_row \<times> listing_row) list)
     \<Rightarrow> timestamptz \<Rightarrow> stg_row list \<Rightarrow> database \<Rightarrow> error + database" where
  "build_incoming_and_apply_scd2 tz row_order now stg db =
     ebind (stg_listing_incoming tz row_order now (listing db) stg)
       (\<lambda>incoming. Inr (db\<lparr>listing_version := apply_scd2 incoming (listing_version db)\<rparr>))"

subsection \<open>Pipeline\<close>

text \<open>
  What the statements leave to PostgreSQL: the input function of \<open>timestamptz\<close> (\<open>None\<close>: the
  text is no timestamp and the cast raises), the row that ROW_NUMBER numbers first among
  rows equal in the sort key, the order in which a join without ORDER BY returns its rows,
  and the cells that the parser reads as an unquoted column name.
\<close>

record postgres =
  timestamptz_in :: "string \<Rightarrow> timestamptz option"
  first_of_ties :: "string list \<Rightarrow> string"
  join_order :: "(stg_row \<times> listing_row) list \<Rightarrow> (stg_row \<times> listing_row) list"
  column_name_ok :: "string \<Rightarrow> bool"

text \<open>
  \<open>run_pipeline\<close> up to the commit: the header check, then one transaction. \<open>Inl\<close> is a
  run that raised; the transaction is rolled back and the database is the one before
  (\<open>db_after\<close>). The refresh of the materialized view and the diagnostics, which follow
  the commit, write none of the tables of the model.
\<close>

definition load_transaction ::
  "postgres \<Rightarrow> timestamptz \<Rightarrow> stg_row list \<Rightarrow> database \<Rightarrow> error + database" where
  "load_transaction pg now stg db =
     ebind (upsert_listings stg (upsert_cities_zipcodes_locations stg (upsert_dimensions stg db)))
       (\<lambda>db3. ebind (upsert_descriptions (first_of_ties pg) stg db3)
                 (\<lambda>db4. build_incoming_and_apply_scd2 (timestamptz_in pg) (join_order pg) now stg db4))"

definition run_pipeline ::
  "postgres \<Rightarrow> timestamptz \<Rightarrow> string list \<Rightarrow> pgtext list list \<Rightarrow> database \<Rightarrow> error + database" where
  "run_pipeline pg now header_cols lines db =
     ebind (assert_expected_headers header_cols)
       (\<lambda>h. ebind (create_temp_staging (column_name_ok pg) header_cols)
               (\<lambda>u. ebind (copy_csv_into_staging header_cols lines)
                       (\<lambda>rows. load_transaction pg now (map (staged header_cols h) rows) db)))"

definition db_after :: "database \<Rightarrow> error + database \<Rightarrow> database" where
  "db_after db res = (case res of Inl e \<Rightarrow> db | Inr db' \<Rightarrow> db')"


section \<open>The deduplication of the cleaner\<close>

text \<open>
  \<open>DeduplicateBusinessKey\<close> of \<open>cleaner.py\<close>, the step that removes repeated business keys
  from the file before the loader reads it. A frame is its column names and its rows, a
  row one cell per column; a cell is a text or missing (NaN, \<open>None\<close>). The key column is
  read as text, as it is for keys such as \<open>A-100\<close>.
\<close>

type_synonym datetime = int

record frame =
  df_columns :: "string list"
  df_rows :: "pgtext list list"

text \<open>\<open>xs[i]\<close> of a column, missing beyond its end.\<close>

definition nth_or :: "'a option list \<Rightarrow> nat \<Rightarrow> 'a option" where
  "nth_or xs i = (if i < length xs then xs ! i else None)"

text \<open>\<open>df[c]\<close>: the column \<open>c\<close>, one cell per row.\<close>

definition series :: "frame \<Rightarrow> string \<Rightarrow> pgtext list" where
  "series df c = map (\<lambda>r. nth_or r (index_of c (df_columns df))) (df_rows df)"

text \<open>
  \<open>tmp["__cdt"]\<close> and \<open>tmp["__sdt"]\<close>: \<open>pd.to_datetime(df[c], errors="coerce")\<close> when the frame has
  the column, a column of NaT otherwise. \<open>to_datetime\<close> is the parser of pandas, from a
  column to a column; NaT is \<open>None\<close>.
\<close>

definition datetime_column ::
  "(pgtext list \<Rightarrow> datetime option list) \<Rightarrow> string \<Rightarrow> frame \<Rightarrow> datetime option list" where
  "datetime_column to_datetime c df =
     (if c \<in> set (df_columns df) then to_datetime (series df c)
      else replicate (length (df_rows df)) None)"

text \<open>
  \<open>sort_values([key, "__cdt", "__sdt"])\<close> orders the rows by the three columns, a missing
  value after every value (\<open>na_position\<close> is \<open>last\<close>), and keeps the file order among equal
  rows. \<open>nan_last\<close> puts a cell into that order; \<open>sort_values_key\<close> is the sort key of row
  \<open>i\<close>.
\<close>

definition nan_last :: "'a option \<Rightarrow> 'a \<Rightarrow> bool \<times> 'a" where
  "nan_last v d = (case v of None \<Rightarrow> (True, d) | Some x \<Rightarrow> (False, x))"

definition sort_values_key ::
  "pgtext list \<Rightarrow> datetime option list \<Rightarrow> datetime option list \<Rightarrow> nat
     \<Rightarrow> (bool \<times> string) \<times> (bool \<times> datetime) \<times> (bool \<times> datetime)" where
  "sort_values_key ks cdt sdt i =
     (nan_last (nth_or ks i) [], nan_last (nth_or cdt i) 0, nan_last (nth_or sdt i) 0)"

text \<open>
  \<open>drop_duplicates(subset=[key], keep="last")\<close>: a row stays when no later row has its key;
  two missing keys count as the same key.
\<close>

fun drop_duplicates_last :: "('a \<Rightarrow> 'k) \<Rightarrow> 'a list \<Rightarrow> 'a list" where
  "drop_duplicates_last key [] = []"
| "drop_duplicates_last key (x # xs) =
     (if key x \<in> set (map key xs) then drop_duplicates_last key xs
      else x # drop_duplicates_last key xs)"

text \<open>
  The row labels of \<open>tmp.sort_values(...).drop_duplicates(...)\<close>: the positions, in the frame
  given to the step, of the rows that stay, in sorted order.
\<close>

definition kept_index ::
  "(pgtext list \<Rightarrow> datetime option list) \<Rightarrow> string \<Rightarrow> frame \<Rightarrow> nat list" where
  "kept_index to_datetime key df =
     drop_duplicates_last (nth_or (series df key))
       (sort_key (sort_values_key (series df key)
                    (datetime_column to_datetime ''change_date'' df)
                    (datetime_column to_datetime ''start_date'' df))
          [0..<length (df_rows df)])"

definition DeduplicateBusinessKey ::
  "(pgtext list \<Rightarrow> datetime option list) \<Rightarrow> string \<Rightarrow> frame \<Rightarrow> frame" where
  "DeduplicateBusinessKey to_datetime key df =
     (if key \<notin> set (df_columns df) then df
      else df\<lparr>df_rows := map (\<lambda>i. df_rows df ! i) (kept_index to_datetime key df)\<rparr>)"

section \<open>Properties of the history and of a batch\<close>

text \<open>The open versions of a listing, and the invariant that there is at most one.\<close>

definition open_versions :: "version_row list \<Rightarrow> nat \<Rightarrow> version_row list" where
  "open_versions lv lid = [t \<leftarrow> lv. lv_listing_id t = lid \<and> is_open t]"

definition at_most_one_open :: "version_row list \<Rightarrow> bool" where
  "at_most_one_open lv =
     (\<forall>lid \<in> set (map lv_listing_id lv). length (open_versions lv lid) \<le> 1)"







text \<open>The business keys of a staged batch: the trimmed, non-empty \<open>listing_id\<close> cells.\<close>

definition business_keys :: "stg_row list \<Rightarrow> string list" where
  "business_keys stg = List.map_filter (\<lambda>sc. nullif_btrim (sc_listing_id sc)) stg"

text \<open>The staging table of a file whose header passed the check.\<close>

definition staged_batch :: "string list \<Rightarrow> pgtext list list \<Rightarrow> stg_row list" where
  "staged_batch header_cols lines =
     (case assert_expected_headers header_cols of
        Inl e \<Rightarrow> []
      | Inr h \<Rightarrow> map (staged header_cols h) lines)"

text \<open>
  A sequence of loads, each with its clock and its staged batch. A load that raises is
  rolled back and leaves the database as it was.
\<close>

fun loads :: "postgres \<Rightarrow> (timestamptz \<times> stg_row list) list \<Rightarrow> database \<Rightarrow> database" where
  "loads pg [] db = db"
| "loads pg (b # bs) db = loads pg bs (db_after db (load_transaction pg (fst b) (snd b) db))"







text \<open>
  Two incoming facts of the same staged row and listing, computed under two clocks: they
  agree in everything but \<open>valid_from\<close>, and there too unless the first is the first clock.
\<close>

definition same_fact :: "timestamptz \<Rightarrow> incoming_row \<Rightarrow> incoming_row \<Rightarrow> bool" where
  "same_fact now1 d1 d2 =
     (inc_listing_id d2 = inc_listing_id d1
      \<and> inc_source_change_ts d2 = inc_source_change_ts d1
      \<and> inc_price d2 = inc_price d1
      \<and> inc_area d2 = inc_area d1
      \<and> inc_site_area d2 = inc_site_area d1
      \<and> inc_floor d2 = inc_floor d1
      \<and> inc_room_count d2 = inc_room_count d1
      \<and> inc_balcony_count d2 = inc_balcony_count d1
      \<and> inc_terrace_count d2 = inc_terrace_count d1
      \<and> inc_terrace_area d2 = inc_terrace_area d1
      \<and> (inc_valid_from d2 = inc_valid_from d1 \<or> inc_valid_from d1 = now1))"

section \<open>Sample data\<close>

text \<open>
  A timestamp cast for the sample files: it accepts three dates and raises on anything
  else, as PostgreSQL does on \<open>not-a-date\<close>.
\<close>

definition sample_tz :: "string \<Rightarrow> timestamptz option" where
  "sample_tz s =
     (if s = ''2024-01-01'' then Some 10
      else if s = ''2024-02-01'' then Some 20
      else if s = ''2024-03-01'' then Some 30
      else None)"

text \<open>
  Two executors for the sample files. Both read every header cell as a column name; the
  first returns the rows of a join in the order of \<open>listing_join\<close> and numbers the first of
  tied rows first, the second returns them reversed and numbers the last of tied rows first.
\<close>

definition sample_pg :: postgres where
  "sample_pg = \<lparr>timestamptz_in = sample_tz, first_of_ties = hd, join_order = (\<lambda>xs. xs),
                column_name_ok = (\<lambda>c. True)\<rparr>"

definition sample_pg_rev :: postgres where
  "sample_pg_rev = \<lparr>timestamptz_in = sample_tz, first_of_ties = last, join_order = rev,
                    column_name_ok = (\<lambda>c. True)\<rparr>"

text \<open>A line of a sample file under the header \<open>EXPECTED\<close>; an empty argument is an empty cell.\<close>

definition cell :: "string \<Rightarrow> pgtext" where
  "cell s = (if s = [] then None else Some s)"

definition sample_line :: "string \<Rightarrow> string \<Rightarrow> string \<Rightarrow> string \<Rightarrow> string \<Rightarrow> pgtext list" where
  "sample_line key change_date price zipc description =
     [cell key, Some ''sale'', Some ''flat'', Some ''t2'', None, cell change_date,
      cell price, Some ''50'', None, Some ''2'', Some ''3'', None, None, None,
      Some ''1999'', Some ''true'', None, None, None, Some ''Paris'', cell zipc,
      cell description]"

definition sample_version :: "nat \<Rightarrow> timestamptz \<Rightarrow> timestamptz option \<Rightarrow> numeric \<Rightarrow> version_row" where
  "sample_version lid vf vt price =
     \<lparr>lv_listing_id = lid, lv_valid_from = vf, lv_valid_to = vt,
      lv_price = Some price, lv_area = Some 50, lv_site_area = None, lv_floor = Some 2,
      lv_room_count = Some 3, lv_balcony_count = None, lv_terrace_count = None,
      lv_terrace_area = None, lv_source_change_ts = Some vf\<rparr>"

definition sample_incoming :: "nat \<Rightarrow> timestamptz \<Rightarrow> numeric \<Rightarrow> incoming_row" where
  "sample_incoming lid vf price =
     \<lparr>inc_listing_id = lid, inc_valid_from = vf, inc_source_change_ts = Some vf,
      inc_price = Some price, inc_area = Some 50, inc_site_area = None, inc_floor = Some 2,
      inc_room_count = Some 3, inc_balcony_count = None, inc_terrace_count = None,
      inc_terrace_area = None\<rparr>"

text \<open>A header that spells the key column \<open>Listing_ID\<close> and has no \<open>price\<close> column.\<close>

definition header_without_price :: "string list" where
  "header_without_price =
     [''Listing_ID'', ''transaction_type'', ''item_type'', ''item_subtype'',
      ''start_date'', ''change_date'',
      ''area'', ''site_area'', ''floor'', ''room_count'', ''balcony_count'',
      ''terrace_count'', ''terrace_area'',
      ''build_year'', ''is_new_construction'', ''has_passenger_lift'', ''has_cellar'',
      ''is_furnished'',
      ''city'', ''zipcode'', ''description_fr'']"

text \<open>The staged row of a sample line.\<close>

definition sample_row :: "string \<Rightarrow> string \<Rightarrow> string \<Rightarrow> string \<Rightarrow> string \<Rightarrow> stg_row" where
  "sample_row key change_date price zipc description =
     \<lparr>sc_listing_id = cell key, sc_transaction_type = Some ''sale'',
      sc_item_type = Some ''flat'', sc_item_subtype = Some ''t2'',
      sc_start_date = None, sc_change_date = cell change_date,
      sc_price = cell price, sc_area = Some ''50'', sc_site_area = None,
      sc_floor = Some ''2'', sc_room_count = Some ''3'', sc_balcony_count = None,
      sc_terrace_count = None, sc_terrace_area = None,
      sc_build_year = Some ''1999'', sc_is_new_construction = Some ''true'',
      sc_has_passenger_lift = None, sc_has_cellar = None, sc_is_furnished = None,
      sc_city = Some ''Paris'', sc_zipcode = cell zipc,
      sc_description_fr = cell description\<rparr>"

text \<open>
  A batch in which the key \<open>A-100\<close> occurs twice. The second row has no zip code, so it joins
  no location and proposes no listing row, but it joins the listing on its key.
\<close>

definition repeated_key_batch :: "stg_row list" where
  "repeated_key_batch =
     [sample_row ''A-100'' ''2024-01-01'' ''200000'' ''75001'' ''bel appartement'',
      sample_row ''A-100'' ''2024-02-01'' ''210000'' [] ''bel appartement'']"

text \<open>Two loads of the listing \<open>A-100\<close>: first at 200000, then at 210000 a month later.\<close>

definition two_loads :: "(timestamptz \<times> stg_row list) list" where
  "two_loads =
     [(100, [sample_row ''A-100'' ''2024-01-01'' ''200000'' ''75001'' ''bel appartement'']),
      (200, [sample_row ''A-100'' ''2024-02-01'' ''210000'' ''75001'' ''bel appartement''])]"

definition sample_listing :: "nat \<Rightarrow> string \<Rightarrow> listing_row" where
  "sample_listing lid ext =
     \<lparr>l_id = lid, l_external_listing_id = ext, l_transaction_type_id = 1,
      l_item_subtype_id = 1, l_location_id = 1, l_build_year = Some 1999,
      l_is_new_construction = Some True, l_has_passenger_lift = None, l_has_cellar = None,
      l_is_furnished = None\<rparr>"


text \<open>
  A frame in which the key \<open>A-100\<close> is spelled once with a leading blank and once without,
  the parser of the sample dates, and the two rows as the loader stages them (the second
  without transaction type, so it proposes no listing row).
\<close>

definition sample_to_datetime :: "pgtext list \<Rightarrow> datetime option list" where
  "sample_to_datetime cells = map (\<lambda>c. case c of None \<Rightarrow> None | Some s \<Rightarrow> sample_tz s) cells"

definition blank_key_frame :: frame where
  "blank_key_frame =
     \<lparr>df_columns = [''listing_id'', ''change_date'', ''price''],
      df_rows = [[Some '' A-100'', Some ''2024-01-01'', Some ''200000''],
                 [Some ''A-100'', Some ''2024-02-01'', Some ''210000'']]\<rparr>"

definition blank_key_batch :: "stg_row list" where
  "blank_key_batch =
     [sample_row '' A-100'' ''2024-01-01'' ''200000'' ''75001'' ''bel appartement'',
      (sample_row ''A-100'' ''2024-02-01'' ''210000'' ''75001'' ''bel appartement'')
        \<lparr>sc_transaction_type := None\<rparr>]"

text \<open>A frame that repeats the key \<open>A-100\<close>, the later change date on its first row.\<close>

definition repeated_key_frame :: frame where
  "repeated_key_frame =
     \<lparr>df_columns = [''listing_id'', ''change_date'', ''price''],
      df_rows = [[Some ''A-100'', Some ''2024-02-01'', Some ''210000''],
                 [Some ''A-101'', Some ''2024-01-01'', Some ''300000''],
                 [Some ''A-100'', Some ''2024-01-01'', Some ''200000'']]\<rparr>"

section \<open>The close and insert statements\<close>

lemma has_open_iff: "has_open lv lid \<longleftrightarrow> open_versions lv lid \<noteq> []"
  by (auto simp: has_open_def open_versions_def filter_empty_conv)

lemma left_join_open_set:
  "set (left_join_open lv inc) =
     (if has_open lv (inc_listing_id inc) then Some ` set (open_versions lv (inc_listing_id inc)) else {None})"
  by (auto simp: left_join_open_def has_open_iff open_versions_def Let_def)

lemma stg_delta_iff:
  "d \<in> set (stg_delta incoming lv) \<longleftrightarrow>
     d \<in> set incoming \<and>
     (\<not> has_open lv (inc_listing_id d)
      \<or> (\<exists>cur \<in> set lv. lv_listing_id cur = inc_listing_id d \<and> is_open cur \<and> fields_differ cur d))"
  by (auto simp: stg_delta_def left_join_open_set open_versions_def has_open_def split: if_splits)

lemma stg_delta_subset: "set (stg_delta incoming lv) \<subseteq> set incoming"
  using stg_delta_iff by blast

lemma close_version_cases:
  "close_version delta t = t \<or>
   (\<exists>d \<in> set delta. closes d t \<and> close_version delta t = t\<lparr>lv_valid_to := Some (inc_valid_from d)\<rparr>)"
proof (cases "[d \<leftarrow> delta. closes d t]")
  case Nil
  then show ?thesis by (simp add: close_version_def)
next
  case (Cons d ds)
  then have "d \<in> set [d \<leftarrow> delta. closes d t]" by simp
  then have "d \<in> set delta" "closes d t" by auto
  with Cons show ?thesis by (auto simp: close_version_def)
qed

lemma close_version_listing [simp]: "lv_listing_id (close_version delta t) = lv_listing_id t"
  using close_version_cases [of delta t] by auto

lemma close_version_valid_from [simp]: "lv_valid_from (close_version delta t) = lv_valid_from t"
  using close_version_cases [of delta t] by auto

lemma close_version_id:
  "\<forall>d \<in> set delta. \<not> closes d t \<Longrightarrow> close_version delta t = t"
  using close_version_cases [of delta t] by auto


lemma close_version_open: "is_open (close_version delta t) \<Longrightarrow> close_version delta t = t"
  using close_version_cases [of delta t] by (auto simp: is_open_def)

lemma close_version_closes:
  "d \<in> set delta \<Longrightarrow> closes d t \<Longrightarrow> \<not> is_open (close_version delta t)"
  by (cases "[d \<leftarrow> delta. closes d t]") (auto simp: close_version_def is_open_def filter_empty_conv)

lemma apply_scd2_eq:
  "apply_scd2 incoming lv =
     map (close_version (stg_delta incoming lv)) lv
     @ [version_of d. d \<leftarrow> stg_delta incoming lv,
          \<not> has_open (map (close_version (stg_delta incoming lv)) lv) (inc_listing_id d)]"
proof (cases "stg_delta incoming lv")
  case Nil
  then show ?thesis
    by (simp add: apply_scd2_def close_version_def cong: map_cong)
next
  case (Cons a list)
  then show ?thesis by (simp add: apply_scd2_def insert_versions_def Let_def)
qed

lemma version_of_simps [simp]:
  "lv_listing_id (version_of d) = inc_listing_id d"
  "lv_valid_from (version_of d) = inc_valid_from d"
  "lv_valid_to (version_of d) = None"
  "is_open (version_of d)"
  by (simp_all add: version_of_def is_open_def)

lemma filter_map_fixed:
  "(\<And>t. t \<in> set xs \<Longrightarrow> P t \<Longrightarrow> f t = t) \<Longrightarrow> (\<And>t. P (f t) = P t)
     \<Longrightarrow> filter P (map f xs) = filter P xs"
  by (induction xs) auto


section \<open>The dimension statements\<close>

lemma insert_code_codes: "dim_code ` set (insert_code c t) = insert c (dim_code ` set t)"
  by (auto simp: insert_code_def)

lemma fold_insert_code_codes:
  "dim_code ` set (fold insert_code cs t) = dim_code ` set t \<union> set cs"
  by (induction cs arbitrary: t) (simp_all add: insert_code_codes)

lemma insert_codes_codes:
  "set (map dim_code (insert_codes cs t)) = set (map dim_code t) \<union> set cs"
  by (simp add: insert_codes_def fold_insert_code_codes)

lemma zipcode_after_upsert:
  "zipcode (upsert_cities_zipcodes_locations stg db)
     = insert_codes (List.map_filter (\<lambda>r. norm_zip_5 (sc_zipcode r)) stg) (zipcode db)"
  by (simp add: upsert_cities_zipcodes_locations_def Let_def)

lemma set_map_filter: "set (List.map_filter f xs) = {y. \<exists>x \<in> set xs. f x = Some y}"
  by (force simp: List.map_filter_def image_iff)


section \<open>One open version per listing\<close>

lemma open_versions_not_listed:
  "lid \<notin> set (map lv_listing_id lv) \<Longrightarrow> open_versions lv lid = []"
  by (auto simp: open_versions_def filter_empty_conv)

lemma at_most_one_open_all:
  "at_most_one_open lv \<longleftrightarrow> (\<forall>lid. length (open_versions lv lid) \<le> 1)"
proof
  assume a: "at_most_one_open lv"
  show "\<forall>lid. length (open_versions lv lid) \<le> 1"
  proof
    fix lid
    show "length (open_versions lv lid) \<le> 1"
    proof (cases "lid \<in> set (map lv_listing_id lv)")
      case True
      with a show ?thesis unfolding at_most_one_open_def by blast
    next
      case False
      then show ?thesis by (simp add: open_versions_not_listed)
    qed
  qed
next
  assume "\<forall>lid. length (open_versions lv lid) \<le> 1"
  then show "at_most_one_open lv" by (simp add: at_most_one_open_def)
qed

lemma stg_delta_Cons:
  "stg_delta (i # incoming) lv = stg_delta [i] lv @ stg_delta incoming lv"
  by (simp add: stg_delta_def)

lemma stg_delta_single:
  assumes "length (open_versions lv (inc_listing_id i)) \<le> 1"
  shows "stg_delta [i] lv = (if i \<in> set (stg_delta [i] lv) then [i] else [])"
proof (cases "open_versions lv (inc_listing_id i)")
  case Nil
  then show ?thesis
    by (simp add: stg_delta_def left_join_open_def open_versions_def)
next
  case (Cons c cs)
  with assms have "cs = []" by simp
  with Cons show ?thesis
    by (simp add: stg_delta_def left_join_open_def open_versions_def)
qed

lemma stg_delta_filter:
  assumes "at_most_one_open lv"
  shows "stg_delta incoming lv = [d \<leftarrow> incoming. d \<in> set (stg_delta [d] lv)]"
proof (induction incoming)
  case Nil
  then show ?case by (simp add: stg_delta_def)
next
  case (Cons i incoming)
  have "length (open_versions lv (inc_listing_id i)) \<le> 1"
    using assms by (simp add: at_most_one_open_all)
  then have "stg_delta [i] lv = (if i \<in> set (stg_delta [i] lv) then [i] else [])"
    by (rule stg_delta_single)
  with Cons show ?case
    by (subst stg_delta_Cons) auto
qed

lemma stg_delta_distinct:
  assumes "at_most_one_open lv" "distinct (map inc_listing_id incoming)"
  shows "distinct (map inc_listing_id (stg_delta incoming lv))"
  by (subst stg_delta_filter [OF assms(1)]) (rule distinct_map_filter [OF assms(2)])

lemma length_filter_key_le_1:
  "distinct (map f xs) \<Longrightarrow> length [x \<leftarrow> xs. f x = a] \<le> 1"
proof (induction xs)
  case Nil
  then show ?case by simp
next
  case (Cons x xs)
  show ?case
  proof (cases "f x = a")
    case True
    from Cons.prems have "f x \<notin> f ` set xs" by simp
    with True have "\<forall>y \<in> set xs. f y \<noteq> a" by blast
    then have "[y \<leftarrow> xs. f y = a] = []"
      by (simp add: filter_empty_conv)
    with True show ?thesis by simp
  next
    case False
    with Cons show ?thesis by simp
  qed
qed

lemma length_filter_conj_le:
  "length [x \<leftarrow> xs. P x \<and> Q x] \<le> length [x \<leftarrow> xs. P x]"
  by (induction xs) auto

lemma open_versions_append:
  "open_versions (xs @ ys) lid = open_versions xs lid @ open_versions ys lid"
  by (simp add: open_versions_def)

lemma open_versions_closed_le:
  "length (open_versions (map (close_version delta) lv) lid) \<le> length (open_versions lv lid)"
proof (induction lv)
  case Nil
  then show ?case by (simp add: open_versions_def)
next
  case (Cons t lv)
  have "is_open (close_version delta t) \<Longrightarrow> is_open t"
    using close_version_open [of delta t] by simp
  with Cons show ?case by (auto simp: open_versions_def)
qed

lemma open_versions_new:
  "open_versions [version_of d. d \<leftarrow> delta, P d] lid
     = map version_of [d \<leftarrow> delta. inc_listing_id d = lid \<and> P d]"
  by (induction delta) (auto simp: open_versions_def)

lemma apply_scd2_one_open:
  assumes d: "distinct (map inc_listing_id incoming)" and o: "at_most_one_open lv"
  shows "at_most_one_open (apply_scd2 incoming lv)"
proof -
  let ?delta = "stg_delta incoming lv"
  let ?closed = "map (close_version ?delta) lv"
  have dd: "distinct (map inc_listing_id ?delta)"
    using o d by (rule stg_delta_distinct)
  have "length (open_versions (apply_scd2 incoming lv) lid) \<le> 1" for lid
  proof (cases "has_open ?closed lid")
    case True
    then have "[d \<leftarrow> ?delta. inc_listing_id d = lid \<and> \<not> has_open ?closed (inc_listing_id d)] = []"
      by (auto simp: filter_empty_conv)
    moreover have "length (open_versions ?closed lid) \<le> 1"
      using open_versions_closed_le [of ?delta lv lid] o
      by (metis at_most_one_open_all le_trans)
    ultimately show ?thesis
      by (subst apply_scd2_eq) (simp add: open_versions_append open_versions_new)
  next
    case False
    then have "open_versions ?closed lid = []"
      by (simp add: has_open_iff)
    moreover have "length [d \<leftarrow> ?delta. inc_listing_id d = lid \<and> \<not> has_open ?closed (inc_listing_id d)]
        \<le> length [d \<leftarrow> ?delta. inc_listing_id d = lid]"
      by (rule length_filter_conj_le)
    moreover have "length [d \<leftarrow> ?delta. inc_listing_id d = lid] \<le> 1"
      using dd by (rule length_filter_key_le_1)
    ultimately show ?thesis
      by (subst apply_scd2_eq) (simp add: open_versions_append open_versions_new)
  qed
  then show ?thesis by (simp add: at_most_one_open_all)
qed

section \<open>Intervals that do not overlap\<close>









lemma distinct_map_eq:
  "distinct (map f xs) \<Longrightarrow> x \<in> set xs \<Longrightarrow> y \<in> set xs \<Longrightarrow> f x = f y \<Longrightarrow> x = y"
  by (meson distinct_map inj_on_eq_iff)




lemma concat_if_map_filter:
  "[f x. x \<leftarrow> xs, P x] = map f [x \<leftarrow> xs. P x]"
  by (induction xs) auto



section \<open>The statements of one load\<close>

lemma ebind_Inr: "ebind m f = Inr y \<longleftrightarrow> (\<exists>v. m = Inr v \<and> f v = Inr y)"
  by (cases m) (simp_all add: ebind_def)

lemma collect_Inr:
  "collect xs = Inr ys \<longleftrightarrow> xs = map Inr ys"
proof (induction xs arbitrary: ys)
  case Nil
  then show ?case by auto
next
  case (Cons x xs)
  show ?case
  proof (cases x)
    case (Inl e)
    then show ?thesis by auto
  next
    case (Inr v)
    show ?thesis
    proof (cases "collect xs")
      case (Inl e)
      with Cons Inr show ?thesis by (cases ys) auto
    next
      case r: (Inr vs)
      with Cons Inr show ?thesis by (cases ys) auto
    qed
  qed
qed

lemma fold_max_ge: "a \<le> fold max xs (a::nat)"
  by (induction xs arbitrary: a) (auto intro: order_trans [OF max.cobounded2])

lemma fold_max_mem: "x \<in> set xs \<Longrightarrow> x \<le> fold max xs (a::nat)"
proof (induction xs arbitrary: a)
  case Nil
  then show ?case by simp
next
  case (Cons y ys)
  show ?case
  proof (cases "x = y")
    case True
    have "max y a \<le> fold max ys (max y a)" by (rule fold_max_ge)
    with True show ?thesis by simp
  next
    case False
    with Cons show ?thesis by simp
  qed
qed

lemma next_id_fresh: "next_id ids \<notin> set ids"
proof
  assume "next_id ids \<in> set ids"
  then have "next_id ids \<le> fold max ids 0" by (rule fold_max_mem)
  then show False by (simp add: next_id_def)
qed

lemma on_conflict_do_update_distinct:
  assumes "on_conflict_do_update key ins upd seen cs t = Inr t'"
    and "\<And>c r. idf (upd c r) = idf r"
    and "\<And>t c. idf (ins t c) \<notin> set (map idf t)"
    and "distinct (map idf t)"
  shows "distinct (map idf t')"
  using assms(1,4)
proof (induction cs arbitrary: t seen)
  case Nil
  then show ?case by simp
next
  case (Cons c cs)
  let ?t = "(if key c \<in> set (map key t)
              then map (\<lambda>r. if key r = key c then upd c r else r) t
              else t @ [ins t c])"
  from Cons.prems(1) have run: "on_conflict_do_update key ins upd (key c # seen) cs ?t = Inr t'"
    by (simp split: if_splits)
  have same: "map idf (map (\<lambda>r. if key r = key c then upd c r else r) t) = map idf t"
    by (induction t) (simp_all add: assms(2))
  have "distinct (map idf ?t)"
  proof (cases "key c \<in> set (map key t)")
    case True
    then show ?thesis using Cons.prems(2) by (simp only: if_True same)
  next
    case False
    then show ?thesis using Cons.prems(2) assms(3) [of t c] by simp
  qed
  with run show ?case by (rule Cons.IH)
qed

lemma upsert_listings_distinct:
  assumes "upsert_listings stg db = Inr db'" "distinct (map l_id (listing db))"
  shows "distinct (map l_id (listing db'))"
proof -
  from assms(1) obtain cs t where
    t: "on_conflict_do_update l_external_listing_id
          (\<lambda>t c. c\<lparr>l_id := next_id (map l_id t)\<rparr>) (\<lambda>c r. c\<lparr>l_id := l_id r\<rparr>) [] cs (listing db) = Inr t"
    and db': "db' = db\<lparr>listing := t\<rparr>"
    by (auto simp: upsert_listings_def ebind_Inr)
  from t have "distinct (map l_id t)"
  proof (rule on_conflict_do_update_distinct)
    show "l_id ((c\<lparr>l_id := next_id (map l_id t)\<rparr>) :: listing_row) \<notin> set (map l_id t)" for t c
      using next_id_fresh [of "map l_id t"] by simp
  qed (simp_all add: assms(2))
  with db' show ?thesis by simp
qed

lemma incoming_of_Inr:
  assumes "incoming_of tz now sc l = Inr i"
  shows "inc_listing_id i = l_id l"
    and "inc_price i = num_nonneg (sc_price sc)"
    and "inc_area i = num_nonneg (sc_area sc)"
    and "inc_site_area i = num_nonneg (sc_site_area sc)"
    and "inc_terrace_area i = num_nonneg (sc_terrace_area sc)"
    and "floor_bounded (sc_floor sc) (- 5) 300 = Inr (inc_floor i)"
    and "smallint_nonneg (sc_room_count sc) = Inr (inc_room_count i)"
    and "smallint_nonneg (sc_balcony_count sc) = Inr (inc_balcony_count i)"
    and "smallint_nonneg (sc_terrace_count sc) = Inr (inc_terrace_count i)"
  using assms by (auto simp: incoming_of_def ebind_Inr)

lemma map_Inr_eq:
  "map Inr ys = map f xs \<Longrightarrow> list_all2 (\<lambda>x y. f x = Inr y) xs ys"
proof (induction xs arbitrary: ys)
  case Nil
  then show ?case by simp
next
  case (Cons x xs)
  then show ?case by (cases ys) auto
qed

lemma stg_listing_incoming_all2:
  assumes "stg_listing_incoming tz ord now ls stg = Inr incoming"
  shows "list_all2 (\<lambda>p i. incoming_of tz now (fst p) (snd p) = Inr i)
           (ord (listing_join ls stg)) incoming"
proof -
  from assms have "map Inr incoming
      = map (\<lambda>(sc, l). incoming_of tz now sc l) (ord (listing_join ls stg))"
    by (simp add: stg_listing_incoming_def collect_Inr)
  then have "list_all2 (\<lambda>p i. (case p of (sc, l) \<Rightarrow> incoming_of tz now sc l) = Inr i)
      (ord (listing_join ls stg)) incoming"
    by (rule map_Inr_eq)
  then show ?thesis by (simp add: case_prod_beta)
qed

lemma stg_listing_incoming_ids:
  assumes "stg_listing_incoming tz ord now ls stg = Inr incoming"
  shows "map inc_listing_id incoming = map (\<lambda>p. l_id (snd p)) (ord (listing_join ls stg))"
proof -
  have "list_all2 (\<lambda>p i. inc_listing_id i = l_id (snd p)) (ord (listing_join ls stg)) incoming"
    using stg_listing_incoming_all2 [OF assms]
    by (rule list_all2_mono) (simp add: incoming_of_Inr(1))
  then show ?thesis
    by (induction rule: list_all2_induct) simp_all
qed

lemma listing_join_Cons:
  "listing_join ls (sc # stg)
     = map (Pair sc) [l \<leftarrow> ls. Some (l_external_listing_id l) = nullif_btrim (sc_listing_id sc)]
       @ listing_join ls stg"
  by (simp add: listing_join_def concat_if_map_filter)

lemma listing_join_set:
  "(sc, l) \<in> set (listing_join ls stg) \<longleftrightarrow>
     sc \<in> set stg \<and> l \<in> set ls \<and> Some (l_external_listing_id l) = nullif_btrim (sc_listing_id sc)"
  by (auto simp: listing_join_def)

lemma business_keys_Cons:
  "business_keys (sc # stg) =
     (case nullif_btrim (sc_listing_id sc) of None \<Rightarrow> business_keys stg
      | Some k \<Rightarrow> k # business_keys stg)"
  by (simp add: business_keys_def List.map_filter_simps split: option.splits)

lemma business_keys_set:
  "k \<in> set (business_keys stg) \<longleftrightarrow> (\<exists>sc \<in> set stg. nullif_btrim (sc_listing_id sc) = Some k)"
  by (auto simp: business_keys_def set_map_filter)

lemma listing_join_distinct:
  assumes "distinct (business_keys stg)" "distinct (map l_id ls)"
  shows "distinct (map (\<lambda>p. l_id (snd p)) (listing_join ls stg))"
  using assms(1)
proof (induction stg)
  case Nil
  then show ?case by (simp add: listing_join_def)
next
  case (Cons sc stg)
  let ?m = "[l \<leftarrow> ls. Some (l_external_listing_id l) = nullif_btrim (sc_listing_id sc)]"
  from Cons.prems have d: "distinct (business_keys stg)"
    by (simp add: business_keys_Cons split: option.splits)
  have a: "distinct (map l_id ?m)"
    using assms(2) by (rule distinct_map_filter)
  have b: "distinct (map (\<lambda>p. l_id (snd p)) (listing_join ls stg))"
    using d by (rule Cons.IH)
  have c: "l_id l \<noteq> l_id (snd p)" if "l \<in> set ?m" "p \<in> set (listing_join ls stg)" for l p
  proof
    assume eq: "l_id l = l_id (snd p)"
    obtain sc' l' where p: "p = (sc', l')" by (cases p)
    from that(2) p have p': "sc' \<in> set stg" "l' \<in> set ls"
      "Some (l_external_listing_id l') = nullif_btrim (sc_listing_id sc')"
      by (simp_all add: listing_join_set)
    from that(1) have l: "l \<in> set ls" "Some (l_external_listing_id l) = nullif_btrim (sc_listing_id sc)"
      by simp_all
    from assms(2) l(1) p'(2) eq p have "l = l'" by (auto dest: distinct_map_eq)
    with l(2) p'(3) have k: "nullif_btrim (sc_listing_id sc') = Some (l_external_listing_id l)"
      "nullif_btrim (sc_listing_id sc) = Some (l_external_listing_id l)"
      by simp_all
    from k(1) p'(1) have "l_external_listing_id l \<in> set (business_keys stg)"
      by (auto simp: business_keys_set)
    with Cons.prems k(2) show False by (simp add: business_keys_Cons)
  qed
  have eq: "map (\<lambda>p. l_id (snd p)) (listing_join ls (sc # stg))
      = map l_id ?m @ map (\<lambda>p. l_id (snd p)) (listing_join ls stg)"
    by (simp add: listing_join_Cons o_def)
  have disj: "set (map l_id ?m) \<inter> set (map (\<lambda>p. l_id (snd p)) (listing_join ls stg)) = {}"
  proof (rule ccontr)
    assume "set (map l_id ?m) \<inter> set (map (\<lambda>p. l_id (snd p)) (listing_join ls stg)) \<noteq> {}"
    then obtain x where "x \<in> set (map l_id ?m)"
      "x \<in> set (map (\<lambda>p. l_id (snd p)) (listing_join ls stg))" by blast
    then obtain l p where "l \<in> set ?m" "p \<in> set (listing_join ls stg)" "l_id l = l_id (snd p)"
      by (auto simp: image_iff)
    with c show False by blast
  qed
  show ?case
    by (simp only: eq distinct_append a b disj simp_thms)
qed

lemma incoming_ids_distinct:
  assumes "stg_listing_incoming tz ord now ls stg = Inr incoming"
    and "mset (ord (listing_join ls stg)) = mset (listing_join ls stg)"
    and "distinct (business_keys stg)" "distinct (map l_id ls)"
  shows "distinct (map inc_listing_id incoming)"
proof -
  have "mset (map (\<lambda>p. l_id (snd p)) (ord (listing_join ls stg)))
      = mset (map (\<lambda>p. l_id (snd p)) (listing_join ls stg))"
    using arg_cong [OF assms(2), of "image_mset (\<lambda>p. l_id (snd p))"] by simp
  then have "distinct (map (\<lambda>p. l_id (snd p)) (ord (listing_join ls stg)))
      \<longleftrightarrow> distinct (map (\<lambda>p. l_id (snd p)) (listing_join ls stg))"
    by (rule mset_eq_imp_distinct_iff)
  with listing_join_distinct [OF assms(3,4)] show ?thesis
    by (simp add: stg_listing_incoming_ids [OF assms(1)])
qed

lemma upsert_dimensions_frame:
  "listing (upsert_dimensions stg db) = listing db"
  "listing_version (upsert_dimensions stg db) = listing_version db"
  "listing_description (upsert_dimensions stg db) = listing_description db"
  by (simp_all add: upsert_dimensions_def Let_def)

lemma upsert_czl_frame:
  "listing (upsert_cities_zipcodes_locations stg db) = listing db"
  "listing_version (upsert_cities_zipcodes_locations stg db) = listing_version db"
  "listing_description (upsert_cities_zipcodes_locations stg db) = listing_description db"
  by (simp_all add: upsert_cities_zipcodes_locations_def Let_def)

lemma upsert_listings_frame:
  assumes "upsert_listings stg db = Inr db'"
  shows "listing_version db' = listing_version db"
    and "listing_description db' = listing_description db"
  using assms by (auto simp: upsert_listings_def ebind_Inr)

lemma upsert_descriptions_frame:
  assumes "upsert_descriptions tie stg db = Inr db'"
  shows "listing_version db' = listing_version db"
    and "listing db' = listing db"
  using assms by (auto simp: upsert_descriptions_def ebind_Inr)

lemma load_transaction_Inr:
  assumes "load_transaction pg now stg db = Inr db'"
  obtains db3 db4 incoming where
    "upsert_listings stg (upsert_cities_zipcodes_locations stg (upsert_dimensions stg db)) = Inr db3"
    "upsert_descriptions (first_of_ties pg) stg db3 = Inr db4"
    "stg_listing_incoming (timestamptz_in pg) (join_order pg) now (listing db4) stg = Inr incoming"
    "db' = db4\<lparr>listing_version := apply_scd2 incoming (listing_version db4)\<rparr>"
  using assms
  by (auto simp: load_transaction_def build_incoming_and_apply_scd2_def ebind_Inr)

lemma load_transaction_versions:
  assumes run: "load_transaction pg now stg db = Inr db'"
    and ord: "\<And>xs. mset (join_order pg xs) = mset xs"
    and keys: "distinct (business_keys stg)"
    and ids: "distinct (map l_id (listing db))"
  obtains incoming where
    "distinct (map inc_listing_id incoming)"
    "listing_version db' = apply_scd2 incoming (listing_version db)"
    "distinct (map l_id (listing db'))"
proof -
  from run obtain db3 db4 incoming where
    s3: "upsert_listings stg (upsert_cities_zipcodes_locations stg (upsert_dimensions stg db)) = Inr db3"
    and s4: "upsert_descriptions (first_of_ties pg) stg db3 = Inr db4"
    and s5: "stg_listing_incoming (timestamptz_in pg) (join_order pg) now (listing db4) stg
               = Inr incoming"
    and db': "db' = db4\<lparr>listing_version := apply_scd2 incoming (listing_version db4)\<rparr>"
    by (rule load_transaction_Inr)
  have "distinct (map l_id (listing db3))"
    using s3 by (rule upsert_listings_distinct) (simp add: upsert_czl_frame upsert_dimensions_frame ids)
  then have l4: "distinct (map l_id (listing db4))"
    by (simp add: upsert_descriptions_frame(2) [OF s4])
  have v4: "listing_version db4 = listing_version db"
    by (simp add: upsert_descriptions_frame(1) [OF s4] upsert_listings_frame(1) [OF s3]
        upsert_czl_frame upsert_dimensions_frame)
  have "distinct (map inc_listing_id incoming)"
    using s5 ord keys l4 by (rule incoming_ids_distinct)
  moreover have "listing_version db' = apply_scd2 incoming (listing_version db)"
    by (simp add: db' v4)
  moreover have "distinct (map l_id (listing db'))"
    by (simp add: db' l4)
  ultimately show ?thesis by (rule that)
qed

lemma db_after_cases:
  obtains "db_after db (load_transaction pg now stg db) = db"
  | db' where "load_transaction pg now stg db = Inr db'"
      "db_after db (load_transaction pg now stg db) = db'"
  by (cases "load_transaction pg now stg db") (auto simp: db_after_def)

lemma loads_invariant:
  assumes step: "\<And>incoming lv. distinct (map inc_listing_id incoming) \<Longrightarrow> P lv \<Longrightarrow> P (apply_scd2 incoming lv)"
    and ord: "\<And>xs. mset (join_order pg xs) = mset xs"
    and keys: "\<forall>b \<in> set batches. distinct (business_keys (snd b))"
    and ids: "distinct (map l_id (listing db))"
    and init: "P (listing_version db)"
  shows "P (listing_version (loads pg batches db))
         \<and> distinct (map l_id (listing (loads pg batches db)))"
  using keys ids init
proof (induction batches arbitrary: db)
  case Nil
  then show ?case by simp
next
  case (Cons b bs)
  let ?db = "db_after db (load_transaction pg (fst b) (snd b) db)"
  have "distinct (map l_id (listing ?db)) \<and> P (listing_version ?db)"
  proof (cases rule: db_after_cases [of db pg "fst b" "snd b"])
    case 1
    with Cons.prems show ?thesis by simp
  next
    case (2 db')
    from Cons.prems(1) have "distinct (business_keys (snd b))" by simp
    then obtain incoming where
      "distinct (map inc_listing_id incoming)"
      "listing_version db' = apply_scd2 incoming (listing_version db)"
      "distinct (map l_id (listing db'))"
      using load_transaction_versions [OF 2(1) ord _ Cons.prems(2)] by blast
    with step [of incoming "listing_version db"] Cons.prems(3) 2(2) show ?thesis by simp
  qed
  moreover from Cons.prems(1) have "\<forall>b \<in> set bs. distinct (business_keys (snd b))" by simp
  ultimately have "P (listing_version (loads pg bs ?db))
         \<and> distinct (map l_id (listing (loads pg bs ?db)))"
    using Cons.IH [of ?db] by blast
  then show ?case by simp
qed

section \<open>Rows proposed to ON CONFLICT DO UPDATE\<close>

lemma ocdu_frame:
  assumes "on_conflict_do_update key ins upd seen cs t = Inr t'"
    and "\<And>c r. key r = key c \<Longrightarrow> key (upd c r) = key c"
    and "\<And>t c. key (ins t c) = key c"
    and "k \<notin> key ` set cs"
  shows "[r \<leftarrow> t'. key r = k] = [r \<leftarrow> t. key r = k]"
  using assms(1,4)
proof (induction cs arbitrary: t seen)
  case Nil
  then show ?case by simp
next
  case (Cons c cs)
  let ?t = "(if key c \<in> set (map key t)
              then map (\<lambda>r. if key r = key c then upd c r else r) t
              else t @ [ins t c])"
  from Cons.prems(1) have run: "on_conflict_do_update key ins upd (key c # seen) cs ?t = Inr t'"
    by (simp split: if_splits)
  from Cons.prems(2) have k: "k \<noteq> key c" "k \<notin> key ` set cs" by auto
  have "[r \<leftarrow> t'. key r = k] = [r \<leftarrow> ?t. key r = k]"
    using run k(2) by (rule Cons.IH)
  also have "\<dots> = [r \<leftarrow> t. key r = k]"
  proof (cases "key c \<in> set (map key t)")
    case True
    have "[r \<leftarrow> map (\<lambda>r. if key r = key c then upd c r else r) t. key r = k] = [r \<leftarrow> t. key r = k]"
      using k(1) by (induction t) (auto simp: assms(2))
    with True show ?thesis by simp
  next
    case False
    with k(1) show ?thesis by (simp add: assms(3))
  qed
  finally show ?case .
qed

lemma ocdu_post:
  assumes "on_conflict_do_update key ins upd seen cs t = Inr t'"
    and "\<And>c r. key r = key c \<Longrightarrow> key (upd c r) = key c"
    and "\<And>t c. key (ins t c) = key c"
    and "\<And>c r. upd c (upd c r) = upd c r"
    and "\<And>t c. upd c (ins t c) = ins t c"
  shows "distinct (map key cs) \<and> key ` set cs \<inter> set seen = {}
         \<and> (\<forall>c \<in> set cs. key c \<in> key ` set t' \<and> (\<forall>r \<in> set t'. key r = key c \<longrightarrow> upd c r = r))"
  using assms(1)
proof (induction cs arbitrary: t seen)
  case Nil
  then show ?case by simp
next
  case (Cons c cs)
  let ?t = "(if key c \<in> set (map key t)
              then map (\<lambda>r. if key r = key c then upd c r else r) t
              else t @ [ins t c])"
  from Cons.prems have fresh: "key c \<notin> set seen"
    and run: "on_conflict_do_update key ins upd (key c # seen) cs ?t = Inr t'"
    by (simp_all split: if_splits)
  from Cons.IH [OF run] have ih: "distinct (map key cs)" "key ` set cs \<inter> set (key c # seen) = {}"
    "\<forall>c \<in> set cs. key c \<in> key ` set t' \<and> (\<forall>r \<in> set t'. key r = key c \<longrightarrow> upd c r = r)"
    by blast+
  from ih(2) have notin: "key c \<notin> key ` set cs" by auto
  have same: "[r \<leftarrow> t'. key r = key c] = [r \<leftarrow> ?t. key r = key c]"
    using run assms(2,3) notin by (rule ocdu_frame)
  have there: "[r \<leftarrow> ?t. key r = key c] \<noteq> []"
  proof (cases "key c \<in> set (map key t)")
    case True
    then obtain r where r: "r \<in> set t" "key r = key c" by auto
    have "(\<lambda>r. if key r = key c then upd c r else r) r
        \<in> set (map (\<lambda>r. if key r = key c then upd c r else r) t)"
      using r(1) by (rule imageI [of r "set t", folded set_map])
    with r(2) True have mem: "upd c r \<in> set ?t" by simp
    have "key (upd c r) = key c" using r(2) by (rule assms(2))
    with mem show ?thesis unfolding filter_empty_conv by blast
  next
    case False
    then show ?thesis by (simp add: assms(3))
  qed
  have fixed: "upd c r = r" if "r \<in> set ?t" "key r = key c" for r
  proof (cases "key c \<in> set (map key t)")
    case True
    with that(1) obtain r0 where r0: "r0 \<in> set t" "r = (if key r0 = key c then upd c r0 else r0)"
      by auto
    show ?thesis
    proof (cases "key r0 = key c")
      case True
      with r0 show ?thesis by (simp add: assms(4))
    next
      case False
      with r0 that(2) show ?thesis by simp
    qed
  next
    case False
    with that have "r = ins t c" by (auto simp: image_iff)
    then show ?thesis by (simp add: assms(5))
  qed
  have c1: "key c \<in> key ` set t'"
  proof -
    from there same have "[r \<leftarrow> t'. key r = key c] \<noteq> []" by simp
    then obtain r where "r \<in> set t'" "key r = key c"
      by (auto simp: filter_empty_conv)
    then show ?thesis by (metis imageI)
  qed
  have c2: "upd c r = r" if "r \<in> set t'" "key r = key c" for r
  proof -
    from that have "r \<in> set [r \<leftarrow> t'. key r = key c]" by simp
    with same have "r \<in> set [r \<leftarrow> ?t. key r = key c]" by simp
    then have "r \<in> set ?t" by (simp only: set_filter mem_Collect_eq)
    then show ?thesis using that(2) by (rule fixed)
  qed
  from ih(1) notin have d: "distinct (map key (c # cs))" by simp
  from ih(2) fresh have s: "key ` set (c # cs) \<inter> set seen = {}" by auto
  from c1 c2 ih(3) have "\<forall>x \<in> set (c # cs). key x \<in> key ` set t'
      \<and> (\<forall>r \<in> set t'. key r = key x \<longrightarrow> upd x r = r)"
    by simp
  with d s show ?case by blast
qed

lemma map_upd_fixed:
  "(\<And>r. r \<in> set t \<Longrightarrow> key r = k \<Longrightarrow> u r = r) \<Longrightarrow> map (\<lambda>r. if key r = k then u r else r) t = t"
  by (induction t) auto

lemma ocdu_noop:
  assumes "distinct (map key cs)" "key ` set cs \<inter> set seen = {}"
    and "\<forall>c \<in> set cs. key c \<in> key ` set t \<and> (\<forall>r \<in> set t. key r = key c \<longrightarrow> upd c r = r)"
  shows "on_conflict_do_update key ins upd seen cs t = Inr t"
  using assms
proof (induction cs arbitrary: seen)
  case Nil
  then show ?case by simp
next
  case (Cons c cs)
  from Cons.prems(3) have in_t: "key c \<in> set (map key t)"
    and fx: "\<And>r. r \<in> set t \<Longrightarrow> key r = key c \<Longrightarrow> upd c r = r"
    by auto
  have m: "map (\<lambda>r. if key r = key c then upd c r else r) t = t"
    using fx by (rule map_upd_fixed)
  from Cons.prems(2) have fresh: "key c \<notin> set seen" by auto
  from Cons.prems(1,2) have "key ` set cs \<inter> set (key c # seen) = {}" by auto
  with Cons.prems have "on_conflict_do_update key ins upd (key c # seen) cs t = Inr t"
    by (intro Cons.IH) simp_all
  with fresh in_t m show ?case by simp
qed

lemma ocdu_idem:
  assumes "on_conflict_do_update key ins upd [] cs t = Inr t'"
    and "\<And>c r. key r = key c \<Longrightarrow> key (upd c r) = key c"
    and "\<And>t c. key (ins t c) = key c"
    and "\<And>c r. upd c (upd c r) = upd c r"
    and "\<And>t c. upd c (ins t c) = ins t c"
  shows "on_conflict_do_update key ins upd [] cs t' = Inr t'"
proof -
  from ocdu_post [OF assms] show ?thesis
    by (intro ocdu_noop) blast+
qed

section \<open>Out-of-order facts\<close>

text \<open>
  Claim C10. Take a listing that has an open version, and let every incoming fact of
  that listing carry a \<open>valid_from\<close> strictly before the \<open>valid_from\<close> of its open
  versions. Then the SCD2 step leaves the rows of that listing in \<open>listing_version\<close> as
  they were: nothing is closed and nothing is inserted, whether or not the fact is a delta.
\<close>

theorem out_of_order_fact_is_discarded:
  assumes late: "\<forall>d \<in> set incoming. inc_listing_id d = lid \<longrightarrow>
            (\<forall>t \<in> set lv. lv_listing_id t = lid \<and> is_open t \<longrightarrow> inc_valid_from d < lv_valid_from t)"
    and op: "has_open lv lid"
  shows "[t \<leftarrow> apply_scd2 incoming lv. lv_listing_id t = lid] = [t \<leftarrow> lv. lv_listing_id t = lid]"
proof -
  let ?delta = "stg_delta incoming lv"
  have keep: "close_version ?delta t = t" if "t \<in> set lv" "lv_listing_id t = lid" for t
  proof (rule close_version_id, rule ballI)
    fix d assume "d \<in> set ?delta"
    then have "d \<in> set incoming" using stg_delta_subset by blast
    with late that show "\<not> closes d t" by (fastforce simp: closes_def)
  qed
  have a: "[t \<leftarrow> map (close_version ?delta) lv. lv_listing_id t = lid] = [t \<leftarrow> lv. lv_listing_id t = lid]"
    by (rule filter_map_fixed) (simp_all add: keep)
  from op obtain t where t: "t \<in> set lv" "lv_listing_id t = lid" "is_open t"
    by (auto simp: has_open_def)
  then have "close_version ?delta t \<in> set (map (close_version ?delta) lv)" by simp
  with keep t have "has_open (map (close_version ?delta) lv) lid"
    unfolding has_open_def by (metis)
  then have b: "[t \<leftarrow> [version_of d. d \<leftarrow> ?delta,
          \<not> has_open (map (close_version ?delta) lv) (inc_listing_id d)]. lv_listing_id t = lid] = []"
    by (auto simp: filter_empty_conv)
  show ?thesis
    by (subst apply_scd2_eq) (simp only: filter_append a b append_Nil2)
qed


theorem out_of_order_fact_is_discarded_witness:
  "has_open [sample_version 1 30 None 200000] 1
   \<and> sample_incoming 1 10 210000 \<in> set (stg_delta [sample_incoming 1 10 210000] [sample_version 1 30 None 200000])
   \<and> [t \<leftarrow> apply_scd2 [sample_incoming 1 10 210000] [sample_version 1 30 None 200000].
        lv_listing_id t = 1] = [sample_version 1 30 None 200000]"
proof -
  have late: "\<forall>d \<in> set [sample_incoming 1 10 210000]. inc_listing_id d = 1 \<longrightarrow>
      (\<forall>t \<in> set [sample_version 1 30 None 200000].
         lv_listing_id t = 1 \<and> is_open t \<longrightarrow> inc_valid_from d < lv_valid_from t)"
    by (simp add: sample_incoming_def sample_version_def)
  have op: "has_open [sample_version 1 30 None 200000] 1"
    by (simp add: has_open_def sample_version_def is_open_def)
  have delta: "sample_incoming 1 10 210000
      \<in> set (stg_delta [sample_incoming 1 10 210000] [sample_version 1 30 None 200000])"
    by (simp add: stg_delta_iff has_open_def fields_differ_def sample_incoming_def
        sample_version_def is_open_def)
  have same: "[t \<leftarrow> [sample_version 1 30 None 200000]. lv_listing_id t = 1]
      = [sample_version 1 30 None 200000]"
    by (simp add: sample_version_def)
  from out_of_order_fact_is_discarded [OF late op] op delta same show ?thesis
    by simp
qed

section \<open>The header check\<close>

text \<open>
  Claim C7. When a required logical column is missing from the header, compared in lower
  case, \<open>run_pipeline\<close> raises with the list of the missing columns, whatever the lines of
  the file and the state of the database are; no statement has run, and the database
  after the run is the database before it.
\<close>

theorem missing_header_fails_before_any_write:
  assumes "\<exists>c \<in> set EXPECTED. c \<notin> set (map lower header_cols)"
  shows "run_pipeline pg now header_cols lines db
           = Inl (MissingHeaders [c \<leftarrow> EXPECTED. c \<notin> set (map lower header_cols)])
         \<and> db_after db (run_pipeline pg now header_cols lines db) = db"
proof -
  from assms have "[c \<leftarrow> EXPECTED. c \<notin> set (map lower header_cols)] \<noteq> []"
    by (simp add: filter_empty_conv)
  then have "assert_expected_headers header_cols
      = Inl (MissingHeaders [c \<leftarrow> EXPECTED. c \<notin> set (map lower header_cols)])"
    by (simp add: assert_expected_headers_def Let_def)
  then show ?thesis
    by (simp add: run_pipeline_def ebind_def db_after_def)
qed

theorem missing_header_fails_before_any_write_witness:
  "run_pipeline sample_pg 100 header_without_price
     [sample_line ''A-100'' ''2024-01-01'' ''200000'' ''75001'' ''bel appartement''] empty_db
     = Inl (MissingHeaders [''price''])
   \<and> db_after empty_db
       (run_pipeline sample_pg 100 header_without_price
          [sample_line ''A-100'' ''2024-01-01'' ''200000'' ''75001'' ''bel appartement''] empty_db)
     = empty_db"
proof -
  have missing: "\<exists>c \<in> set EXPECTED. c \<notin> set (map lower header_without_price)"
    by code_simp
  have which: "[c \<leftarrow> EXPECTED. c \<notin> set (map lower header_without_price)] = [''price'']"
    by code_simp
  show ?thesis
    using missing_header_fails_before_any_write [OF missing, of sample_pg 100
      "[sample_line ''A-100'' ''2024-01-01'' ''200000'' ''75001'' ''bel appartement'']" empty_db]
    unfolding which by blast
qed


section \<open>The delta decision\<close>

lemma no_delta_no_write:
  assumes "\<forall>d \<in> set incoming. inc_listing_id d = lid \<longrightarrow> d \<notin> set (stg_delta incoming lv)"
  shows "[t \<leftarrow> apply_scd2 incoming lv. lv_listing_id t = lid] = [t \<leftarrow> lv. lv_listing_id t = lid]"
proof -
  let ?delta = "stg_delta incoming lv"
  have none: "inc_listing_id d \<noteq> lid" if "d \<in> set ?delta" for d
    using that assms stg_delta_subset by blast
  have keep: "close_version ?delta t = t" if "lv_listing_id t = lid" for t
    by (rule close_version_id) (use none that in \<open>fastforce simp: closes_def\<close>)
  have a: "[t \<leftarrow> map (close_version ?delta) lv. lv_listing_id t = lid] = [t \<leftarrow> lv. lv_listing_id t = lid]"
    by (rule filter_map_fixed) (simp_all add: keep)
  have b: "[t \<leftarrow> [version_of d. d \<leftarrow> ?delta,
          \<not> has_open (map (close_version ?delta) lv) (inc_listing_id d)]. lv_listing_id t = lid] = []"
    using none by (auto simp: filter_empty_conv)
  show ?thesis
    by (subst apply_scd2_eq) (simp only: filter_append a b append_Nil2)
qed

text \<open>
  Claim C5. An incoming fact is a delta exactly when its listing has no open version or
  some open version of the listing differs from it; two rows differ exactly when their
  tuples of the eight historized fields are unequal as nullable values (so a field going
  to or from null is a change); and a listing none of whose incoming facts is a delta
  keeps its rows of \<open>listing_version\<close> as they were.
\<close>

theorem delta_decision:
  "(d \<in> set (stg_delta incoming lv) \<longleftrightarrow>
      d \<in> set incoming \<and>
      (\<not> has_open lv (inc_listing_id d)
       \<or> (\<exists>cur \<in> set (open_versions lv (inc_listing_id d)). fields_differ cur d)))
   \<and> (fields_differ cur d \<longleftrightarrow>
        (lv_price cur, lv_area cur, lv_site_area cur, lv_floor cur, lv_room_count cur,
         lv_balcony_count cur, lv_terrace_count cur, lv_terrace_area cur)
        \<noteq> (inc_price d, inc_area d, inc_site_area d, inc_floor d, inc_room_count d,
           inc_balcony_count d, inc_terrace_count d, inc_terrace_area d))
   \<and> ((\<forall>i \<in> set incoming. inc_listing_id i = lid \<longrightarrow> i \<notin> set (stg_delta incoming lv)) \<longrightarrow>
        [t \<leftarrow> apply_scd2 incoming lv. lv_listing_id t = lid] = [t \<leftarrow> lv. lv_listing_id t = lid])"
proof (intro conjI impI)
  show "d \<in> set (stg_delta incoming lv) \<longleftrightarrow>
      d \<in> set incoming \<and>
      (\<not> has_open lv (inc_listing_id d)
       \<or> (\<exists>cur \<in> set (open_versions lv (inc_listing_id d)). fields_differ cur d))"
    by (auto simp: stg_delta_iff open_versions_def)
next
  show "fields_differ cur d \<longleftrightarrow>
        (lv_price cur, lv_area cur, lv_site_area cur, lv_floor cur, lv_room_count cur,
         lv_balcony_count cur, lv_terrace_count cur, lv_terrace_area cur)
        \<noteq> (inc_price d, inc_area d, inc_site_area d, inc_floor d, inc_room_count d,
           inc_balcony_count d, inc_terrace_count d, inc_terrace_area d)"
    by (auto simp: fields_differ_def)
next
  assume "\<forall>i \<in> set incoming. inc_listing_id i = lid \<longrightarrow> i \<notin> set (stg_delta incoming lv)"
  then show "[t \<leftarrow> apply_scd2 incoming lv. lv_listing_id t = lid] = [t \<leftarrow> lv. lv_listing_id t = lid]"
    by (rule no_delta_no_write)
qed

theorem delta_decision_witness:
  "sample_incoming 1 20 200000
     \<notin> set (stg_delta [sample_incoming 1 20 200000, sample_incoming 2 20 5]
              [sample_version 1 10 None 200000])
   \<and> sample_incoming 2 20 5
     \<in> set (stg_delta [sample_incoming 1 20 200000, sample_incoming 2 20 5]
              [sample_version 1 10 None 200000])
   \<and> (sample_incoming 1 20 200000) \<lparr>inc_price := None\<rparr>
     \<in> set (stg_delta [(sample_incoming 1 20 200000) \<lparr>inc_price := None\<rparr>]
              [sample_version 1 10 None 200000])
   \<and> [t \<leftarrow> apply_scd2 [sample_incoming 1 20 200000, sample_incoming 2 20 5]
              [sample_version 1 10 None 200000]. lv_listing_id t = 1]
     = [sample_version 1 10 None 200000]"
proof -
  let ?lv = "[sample_version 1 10 None 200000]"
  let ?same = "sample_incoming 1 20 200000"
  let ?new = "sample_incoming 2 20 5"
  let ?nulled = "(sample_incoming 1 20 200000) \<lparr>inc_price := None\<rparr>"
  have ov: "open_versions ?lv 1 = ?lv" "open_versions ?lv 2 = []"
    by (simp_all add: open_versions_def sample_version_def is_open_def)
  have ho: "has_open ?lv 1" "\<not> has_open ?lv 2"
    by (simp_all add: has_open_def sample_version_def is_open_def)
  have ne: "?same \<noteq> ?new"
    by (simp add: sample_incoming_def)
  have same: "\<not> fields_differ (sample_version 1 10 None 200000) ?same"
    using delta_decision [of ?same "[?same, ?new]" ?lv "sample_version 1 10 None 200000" 1]
    by (simp add: sample_incoming_def sample_version_def)
  have nulled: "fields_differ (sample_version 1 10 None 200000) ?nulled"
    using delta_decision [of ?nulled "[?nulled]" ?lv "sample_version 1 10 None 200000" 1]
    by (simp add: sample_incoming_def sample_version_def)
  have a: "?same \<notin> set (stg_delta [?same, ?new] ?lv)"
    using delta_decision [of ?same "[?same, ?new]" ?lv "sample_version 1 10 None 200000" 1] ov ho same
    by (simp add: sample_incoming_def)
  have b: "?new \<in> set (stg_delta [?same, ?new] ?lv)"
    using delta_decision [of ?new "[?same, ?new]" ?lv "sample_version 1 10 None 200000" 1] ov ho
    by (simp add: sample_incoming_def)
  have c: "?nulled \<in> set (stg_delta [?nulled] ?lv)"
    using delta_decision [of ?nulled "[?nulled]" ?lv "sample_version 1 10 None 200000" 1] ov ho nulled
    by (simp add: sample_incoming_def)
  have pre: "\<forall>i \<in> set [?same, ?new]. inc_listing_id i = 1 \<longrightarrow> i \<notin> set (stg_delta [?same, ?new] ?lv)"
    using a by (simp add: sample_incoming_def)
  have keep: "[t \<leftarrow> ?lv. lv_listing_id t = 1] = ?lv"
    by (simp add: sample_version_def)
  have d: "[t \<leftarrow> apply_scd2 [?same, ?new] ?lv. lv_listing_id t = 1] = ?lv"
    using delta_decision [of ?same "[?same, ?new]" ?lv "sample_version 1 10 None 200000" 1] pre keep
    by simp
  from a b c d show ?thesis by blast
qed


section \<open>Zip codes\<close>

text \<open>
  Claim C6 as stated fails: a zip of one to three digits is not unknown, it is padded with
  zeros like a zip of four digits. The file cell \<open>75\<close> is stored as the code \<open>00075\<close>.
\<close>

theorem short_zip_is_padded_counterexample:
  "norm_zip_5 (Some ''75'') = Some ''00075''
   \<and> map dim_code (zipcode (upsert_cities_zipcodes_locations
        [sample_row ''A-100'' ''2024-01-01'' ''200000'' ''75'' ''bel appartement''] empty_db))
     = [''00075'']"
  by code_simp

text \<open>
  Claim C6, amended. A null or blank zip is unknown. Otherwise the digits of the cell are
  taken, all other characters dropped: one to five digits are padded on the left with
  zeros to five characters (so five digits are kept as they are and four digits get one
  zero), no digit or more than five digits are unknown. The zipcode table after the
  statement holds the codes it had and the known normalised zips of the batch, and no
  other code.
\<close>

theorem zip_normalisation:
  "norm_zip_5 t =
     (if null_or_blank t then None
      else if strip_non_digits (the t) = [] \<or> 5 < length (strip_non_digits (the t)) then None
      else Some (replicate (5 - length (strip_non_digits (the t))) CHR ''0''
                 @ strip_non_digits (the t)))
   \<and> set (map dim_code (zipcode (upsert_cities_zipcodes_locations stg db)))
     = set (map dim_code (zipcode db)) \<union> {c. \<exists>sc \<in> set stg. norm_zip_5 (sc_zipcode sc) = Some c}"
proof
  have dig: "list_all is_digit (strip_non_digits (the t))"
    by (simp add: strip_non_digits_def list_all_iff)
  show "norm_zip_5 t =
     (if null_or_blank t then None
      else if strip_non_digits (the t) = [] \<or> 5 < length (strip_non_digits (the t)) then None
      else Some (replicate (5 - length (strip_non_digits (the t))) CHR ''0''
                 @ strip_non_digits (the t)))"
    using dig by (cases "strip_non_digits (the t)")
       (auto simp: norm_zip_5_def Let_def lpad0_def simp del: replicate.simps)
  show "set (map dim_code (zipcode (upsert_cities_zipcodes_locations stg db)))
     = set (map dim_code (zipcode db)) \<union> {c. \<exists>sc \<in> set stg. norm_zip_5 (sc_zipcode sc) = Some c}"
    by (simp only: zipcode_after_upsert insert_codes_codes set_map_filter)
qed

theorem zip_normalisation_witness:
  "norm_zip_5 (Some ''7501'') = Some ''07501''
   \<and> norm_zip_5 (Some ''75001'') = Some ''75001''
   \<and> norm_zip_5 (Some ''ABCDE'') = None
   \<and> norm_zip_5 (Some ''750011'') = None
   \<and> set (map dim_code (zipcode (upsert_cities_zipcodes_locations
        [sample_row ''A-100'' ''2024-01-01'' ''200000'' ''7501'' ''bel appartement'',
         sample_row ''A-101'' ''2024-01-01'' ''200000'' ''ABCDE'' ''bel appartement''] empty_db)))
     = {''07501''}"
proof -
  have d1: "strip_non_digits ''7501'' = ''7501''" "strip_non_digits ''75001'' = ''75001''"
    "strip_non_digits ''ABCDE'' = []" "strip_non_digits ''750011'' = ''750011''"
    by code_simp+
  have nb: "\<not> null_or_blank (Some ''7501'')" "\<not> null_or_blank (Some ''75001'')"
    "\<not> null_or_blank (Some ''ABCDE'')" "\<not> null_or_blank (Some ''750011'')"
    by code_simp+
  have a: "norm_zip_5 (Some ''7501'') = Some ''07501''"
    using zip_normalisation [of "Some ''7501''" "[]" empty_db] d1 nb by simp
  have b: "norm_zip_5 (Some ''75001'') = Some ''75001''"
    using zip_normalisation [of "Some ''75001''" "[]" empty_db] d1 nb by simp
  have c: "norm_zip_5 (Some ''ABCDE'') = None"
    using zip_normalisation [of "Some ''ABCDE''" "[]" empty_db] d1 nb by simp
  have d: "norm_zip_5 (Some ''750011'') = None"
    using zip_normalisation [of "Some ''750011''" "[]" empty_db] d1 nb by simp
  have e: "set (map dim_code (zipcode (upsert_cities_zipcodes_locations
        [sample_row ''A-100'' ''2024-01-01'' ''200000'' ''7501'' ''bel appartement'',
         sample_row ''A-101'' ''2024-01-01'' ''200000'' ''ABCDE'' ''bel appartement''] empty_db)))
     = {''07501''}"
    using zip_normalisation [of "Some ''7501''"
        "[sample_row ''A-100'' ''2024-01-01'' ''200000'' ''7501'' ''bel appartement'',
          sample_row ''A-101'' ''2024-01-01'' ''200000'' ''ABCDE'' ''bel appartement'']" empty_db] a c
    by (auto simp: sample_row_def cell_def empty_db_def)
  from a b c d e show ?thesis by blast
qed


section \<open>At most one open version\<close>

text \<open>
  Claim C1 as stated fails. The loader removes no repeated key: a batch in which a business
  key occurs twice gives the listing two incoming facts, both are deltas, and the INSERT,
  whose NOT EXISTS does not see the rows it inserts itself, opens a version for each. After
  the load of \<open>repeated_key_batch\<close> into the empty database the listing has two open
  versions, in whichever order the join returns the two rows.
\<close>

theorem repeated_key_two_open_counterexample:
  "(case load_transaction sample_pg 100 repeated_key_batch empty_db of
      Inl e \<Rightarrow> False
    | Inr db \<Rightarrow>
        map (\<lambda>t. (lv_listing_id t, lv_valid_from t, lv_valid_to t, lv_price t)) (listing_version db)
          = [(1, 10, None, Some 200000), (1, 20, None, Some 210000)]
        \<and> length (open_versions (listing_version db) 1) = 2
        \<and> \<not> at_most_one_open (listing_version db))
   \<and> (case load_transaction sample_pg_rev 100 repeated_key_batch empty_db of
      Inl e \<Rightarrow> False
    | Inr db \<Rightarrow>
        map (\<lambda>t. (lv_listing_id t, lv_valid_from t, lv_valid_to t, lv_price t)) (listing_version db)
          = [(1, 20, None, Some 210000), (1, 10, None, Some 200000)]
        \<and> length (open_versions (listing_version db) 1) = 2
        \<and> \<not> at_most_one_open (listing_version db))"
  by code_simp

text \<open>
  Claim C1, amended. Let the join of the staged rows with the listings return every pair
  once, in any order; let the listing ids be unique and every listing have at most one
  open version before the first load. After any sequence of loads in each of whose batches
  no business key is repeated (keys compared trimmed), every listing has at most one open
  version; and one more SCD2 step on that history, with at most one incoming fact per
  listing, keeps it so. This covers loading the same batch again.
\<close>

theorem one_open_version_per_listing:
  assumes "\<forall>xs. mset (join_order pg xs) = mset xs"
    and "\<forall>b \<in> set batches. distinct (business_keys (snd b))"
    and "distinct (map l_id (listing db))"
    and "at_most_one_open (listing_version db)"
  shows "at_most_one_open (listing_version (loads pg batches db))
         \<and> (\<forall>incoming. distinct (map inc_listing_id incoming) \<longrightarrow>
              at_most_one_open (apply_scd2 incoming (listing_version (loads pg batches db))))"
proof -
  from assms(1) have ord: "\<And>xs. mset (join_order pg xs) = mset xs" by simp
  have "at_most_one_open (listing_version (loads pg batches db))
      \<and> distinct (map l_id (listing (loads pg batches db)))"
    using apply_scd2_one_open ord assms(2-4) by (rule loads_invariant)
  then show ?thesis using apply_scd2_one_open by blast
qed

theorem one_open_version_per_listing_witness:
  "at_most_one_open (listing_version (loads sample_pg_rev (two_loads @ two_loads) empty_db))
   \<and> map (\<lambda>t. (lv_listing_id t, lv_valid_from t, lv_valid_to t, lv_price t))
        (listing_version (loads sample_pg_rev (two_loads @ two_loads) empty_db))
     = [(1, 10, Some 20, Some 200000), (1, 20, None, Some 210000)]
   \<and> at_most_one_open
        (apply_scd2 [sample_incoming 1 30 220000]
           (listing_version (loads sample_pg_rev (two_loads @ two_loads) empty_db)))"
proof -
  have ord: "\<forall>xs. mset (join_order sample_pg_rev xs) = mset xs"
    by (simp add: sample_pg_rev_def)
  have keys: "\<forall>b \<in> set (two_loads @ two_loads). distinct (business_keys (snd b))"
    by code_simp
  have ids: "distinct (map l_id (listing empty_db))"
    by (simp add: empty_db_def)
  have one: "at_most_one_open (listing_version empty_db)"
    by (simp add: empty_db_def at_most_one_open_def)
  have inc: "distinct (map inc_listing_id [sample_incoming 1 30 220000])"
    by simp
  have rows: "map (\<lambda>t. (lv_listing_id t, lv_valid_from t, lv_valid_to t, lv_price t))
        (listing_version (loads sample_pg_rev (two_loads @ two_loads) empty_db))
     = [(1, 10, Some 20, Some 200000), (1, 20, None, Some 210000)]"
    by code_simp
  from one_open_version_per_listing [OF ord keys ids one] inc rows
  show ?thesis by blast
qed

section \<open>Intervals of one listing\<close>





section \<open>Incoming facts per listing\<close>

lemma drop_duplicates_last_subset: "set (drop_duplicates_last key xs) \<subseteq> set xs"
  by (induction xs) auto

lemma drop_duplicates_last_keys: "key ` set (drop_duplicates_last key xs) = key ` set xs"
  by (induction xs) auto

lemma drop_duplicates_last_distinct: "distinct (map key (drop_duplicates_last key xs))"
proof (induction xs)
  case Nil
  then show ?case by simp
next
  case (Cons x xs)
  have "key x \<notin> key ` set (drop_duplicates_last key xs)" if "key x \<notin> key ` set xs"
    using that by (simp add: drop_duplicates_last_keys)
  with Cons show ?case by simp
qed

lemma drop_duplicates_last_mset: "mset (drop_duplicates_last key xs) \<subseteq># mset xs"
proof (induction xs)
  case Nil
  then show ?case by simp
next
  case (Cons x xs)
  have "mset xs \<subseteq># add_mset x (mset xs)"
    by simp
  with Cons have "mset (drop_duplicates_last key xs) \<subseteq># add_mset x (mset xs)"
    by (rule subset_mset.order_trans)
  with Cons show ?case by simp
qed

lemma drop_duplicates_last_latest:
  assumes "sorted (map f xs)" "x \<in> set (drop_duplicates_last key xs)" "y \<in> set xs"
    and "key y = key x"
  shows "f y \<le> f x"
  using assms
proof (induction xs)
  case Nil
  then show ?case by simp
next
  case (Cons a xs)
  from Cons.prems(1) have first: "\<And>z. z \<in> set xs \<Longrightarrow> f a \<le> f z" and s: "sorted (map f xs)"
    by auto
  show ?case
  proof (cases "key a \<in> set (map key xs)")
    case True
    with Cons.prems(2) have x: "x \<in> set (drop_duplicates_last key xs)" by simp
    then have x': "x \<in> set xs" using drop_duplicates_last_subset by fastforce
    from Cons.prems(3) consider "y = a" | "y \<in> set xs" by auto
    then show ?thesis
    proof cases
      case 1
      with first [OF x'] show ?thesis by simp
    next
      case 2
      from s x 2 Cons.prems(4) show ?thesis by (rule Cons.IH)
    qed
  next
    case False
    with Cons.prems(2) consider "x = a" | "x \<in> set (drop_duplicates_last key xs)" by auto
    then show ?thesis
    proof cases
      case 1
      with Cons.prems(3,4) False have "y = a" by (auto simp: image_iff)
      with 1 show ?thesis by simp
    next
      case 2
      then have x': "x \<in> set xs" using drop_duplicates_last_subset by fastforce
      from Cons.prems(3) consider "y = a" | "y \<in> set xs" by auto
      then show ?thesis
      proof cases
        case 1
        with first [OF x'] show ?thesis by simp
      next
        case y: 2
        from s 2 y Cons.prems(4) show ?thesis by (rule Cons.IH)
      qed
    qed
  qed
qed

lemma series_length: "length (series df c) = length (df_rows df)"
  by (simp add: series_def)

lemma sorted_index_set:
  "set (sort_key f [0..<n]) = {0..<n}"
  by simp

lemma kept_index_props:
  fixes to_datetime key df
  defines "ks \<equiv> series df key"
    and "n \<equiv> length (df_rows df)"
    and "kept \<equiv> kept_index to_datetime key df"
  shows "set kept \<subseteq> {0..<n}"
    and "distinct (map (nth_or ks) kept)"
    and "nth_or ks ` set kept = nth_or ks ` {0..<n}"
    and "mset kept \<subseteq># mset [0..<n]"
proof -
  let ?f = "sort_values_key ks (datetime_column to_datetime ''change_date'' df)
              (datetime_column to_datetime ''start_date'' df)"
  have kept: "kept = drop_duplicates_last (nth_or ks) (sort_key ?f [0..<n])"
    by (simp add: kept_def kept_index_def ks_def n_def)
  show "set kept \<subseteq> {0..<n}"
    unfolding kept using drop_duplicates_last_subset [of "nth_or ks" "sort_key ?f [0..<n]"] by simp
  show "distinct (map (nth_or ks) kept)"
    unfolding kept by (rule drop_duplicates_last_distinct)
  show "nth_or ks ` set kept = nth_or ks ` {0..<n}"
    unfolding kept by (simp add: drop_duplicates_last_keys)
  have "mset kept \<subseteq># mset (sort_key ?f [0..<n])"
    unfolding kept by (rule drop_duplicates_last_mset)
  then show "mset kept \<subseteq># mset [0..<n]" by simp
qed

lemma kept_index_latest:
  assumes "i \<in> set (kept_index to_datetime key df)" "j < length (df_rows df)"
    and "nth_or (series df key) j = nth_or (series df key) i"
  shows "(nan_last (nth_or (datetime_column to_datetime ''change_date'' df) j) 0,
          nan_last (nth_or (datetime_column to_datetime ''start_date'' df) j) 0)
         \<le> (nan_last (nth_or (datetime_column to_datetime ''change_date'' df) i) 0,
            nan_last (nth_or (datetime_column to_datetime ''start_date'' df) i) 0)"
proof -
  let ?ks = "series df key"
  let ?f = "sort_values_key ?ks (datetime_column to_datetime ''change_date'' df)
              (datetime_column to_datetime ''start_date'' df)"
  let ?sorted = "sort_key ?f [0..<length (df_rows df)]"
  have s: "sorted (map ?f ?sorted)" by (rule sorted_sort_key)
  from assms(1) have i: "i \<in> set (drop_duplicates_last (nth_or ?ks) ?sorted)"
    by (simp add: kept_index_def)
  from assms(2) have j: "j \<in> set ?sorted" by simp
  from s i j assms(3) have "?f j \<le> ?f i" by (rule drop_duplicates_last_latest)
  with assms(3) show ?thesis
    by (simp add: sort_values_key_def less_eq_prod_def)
qed

lemma series_dedup:
  assumes "key \<in> set (df_columns df)"
  shows "series (DeduplicateBusinessKey to_datetime key df) c
           = map (nth_or (series df c)) (kept_index to_datetime key df)"
proof -
  let ?kept = "kept_index to_datetime key df"
  have in_range: "\<forall>i \<in> set ?kept. i < length (df_rows df)"
    using kept_index_props(1) [of to_datetime key df] by auto
  have "series (DeduplicateBusinessKey to_datetime key df) c
      = map (\<lambda>i. nth_or (df_rows df ! i) (index_of c (df_columns df))) ?kept"
    using assms by (simp add: DeduplicateBusinessKey_def series_def o_def)
  also have "\<dots> = map (nth_or (series df c)) ?kept"
    using in_range by (intro map_cong refl) (simp add: nth_or_def series_def)
  finally show ?thesis .
qed

lemma dedup_keys:
  assumes "key \<in> set (df_columns df)"
  shows "distinct (series (DeduplicateBusinessKey to_datetime key df) key)"
    and "set (series (DeduplicateBusinessKey to_datetime key df) key) = set (series df key)"
proof -
  let ?ks = "series df key"
  let ?n = "length (df_rows df)"
  show "distinct (series (DeduplicateBusinessKey to_datetime key df) key)"
    unfolding series_dedup [OF assms] by (rule kept_index_props(2))
  have "nth_or ?ks ` {0..<?n} = set ?ks"
  proof -
    have "map (nth_or ?ks) [0..<?n] = ?ks"
      by (intro nth_equalityI) (simp_all add: nth_or_def series_length)
    then have "set (map (nth_or ?ks) [0..<?n]) = set ?ks" by simp
    then show ?thesis by simp
  qed
  with kept_index_props(3) [of df key to_datetime]
  show "set (series (DeduplicateBusinessKey to_datetime key df) key) = set (series df key)"
    unfolding series_dedup [OF assms] by simp
qed

lemma dedup_rows:
  "mset (df_rows (DeduplicateBusinessKey to_datetime key df)) \<subseteq># mset (df_rows df)"
proof (cases "key \<in> set (df_columns df)")
  case False
  then show ?thesis by (simp add: DeduplicateBusinessKey_def)
next
  case True
  let ?kept = "kept_index to_datetime key df"
  have "image_mset (\<lambda>i. df_rows df ! i) (mset ?kept)
      \<subseteq># image_mset (\<lambda>i. df_rows df ! i) (mset [0..<length (df_rows df)])"
    using kept_index_props(4) [of to_datetime key df] by (rule image_mset_subseteq_mono)
  moreover have "map (\<lambda>i. df_rows df ! i) [0..<length (df_rows df)] = df_rows df"
    by (rule map_nth)
  then have "image_mset (\<lambda>i. df_rows df ! i) (mset [0..<length (df_rows df)]) = mset (df_rows df)"
    by (metis mset_map)
  ultimately show ?thesis using True by (simp add: DeduplicateBusinessKey_def)
qed

lemma business_keys_untrimmed:
  assumes "distinct (map sc_listing_id stg)"
    and "\<forall>s. Some s \<in> set (map sc_listing_id stg) \<longrightarrow> btrim s = s"
  shows "distinct (business_keys stg)"
  using assms
proof (induction stg)
  case Nil
  then show ?case by (simp add: business_keys_def List.map_filter_simps)
next
  case (Cons sc stg)
  from Cons.prems have ih: "distinct (business_keys stg)"
    by (intro Cons.IH) auto
  show ?case
  proof (cases "nullif_btrim (sc_listing_id sc)")
    case None
    with ih show ?thesis by (simp add: business_keys_Cons)
  next
    case (Some k)
    then obtain s where s: "sc_listing_id sc = Some s" "btrim s = k"
      by (auto simp: nullif_btrim_def split: option.splits if_splits)
    from s(1) have "Some s \<in> set (map sc_listing_id (sc # stg))" by simp
    with Cons.prems(2) have "btrim s = s" by blast
    with s have k: "sc_listing_id sc = Some k" by simp
    have "k \<notin> set (business_keys stg)"
    proof
      assume "k \<in> set (business_keys stg)"
      then obtain sc' where sc': "sc' \<in> set stg" "nullif_btrim (sc_listing_id sc') = Some k"
        by (auto simp: business_keys_set)
      then obtain s' where s': "sc_listing_id sc' = Some s'" "btrim s' = k"
        by (auto simp: nullif_btrim_def split: option.splits if_splits)
      from sc'(1) s'(1) have "Some s' \<in> set (map sc_listing_id (sc # stg))"
        by (auto simp: image_iff intro: bexI [of _ sc'])
      with Cons.prems(2) have "btrim s' = s'" by blast
      with s' have "sc_listing_id sc' = Some k" by simp
      with sc'(1) k Cons.prems(1) show False by (auto simp: image_iff)
    qed
    with ih Some show ?thesis by (simp add: business_keys_Cons)
  qed
qed

lemma stg_listing_incoming_mset:
  assumes "\<forall>xs. mset (ord xs) = mset xs"
    and "stg_listing_incoming tz ord now ls stg = Inr incoming"
  shows "mset (map inc_listing_id incoming) = mset (map (\<lambda>p. l_id (snd p)) (listing_join ls stg))"
proof -
  from assms(1) have "mset (ord (listing_join ls stg)) = mset (listing_join ls stg)" by simp
  from arg_cong [OF this, of "image_mset (\<lambda>p. l_id (snd p))"]
  show ?thesis by (simp add: stg_listing_incoming_ids [OF assms(2)])
qed

text \<open>
  Claim C4 as stated fails. The deduplication compares the keys as they are spelled in the
  file, the loader joins on the trimmed key. In \<open>blank_key_frame\<close> the key \<open>A-100\<close> occurs once
  with a leading blank and once without: both rows survive the deduplication, both join
  the listing \<open>A-100\<close>, and the Delta Engine receives two incoming facts of that listing,
  both of them deltas; the load of \<open>blank_key_batch\<close> opens two versions of it.
\<close>

theorem keys_differing_by_a_blank_counterexample:
  "df_rows (DeduplicateBusinessKey sample_to_datetime ''listing_id'' blank_key_frame)
     = df_rows blank_key_frame
   \<and> series (DeduplicateBusinessKey sample_to_datetime ''listing_id'' blank_key_frame) ''listing_id''
     = [Some '' A-100'', Some ''A-100'']
   \<and> map sc_listing_id blank_key_batch = [Some '' A-100'', Some ''A-100'']
   \<and> stg_listing_incoming sample_tz (\<lambda>xs. xs) 100 [sample_listing 1 ''A-100''] blank_key_batch
     = Inr [sample_incoming 1 10 200000, sample_incoming 1 20 210000]
   \<and> stg_delta [sample_incoming 1 10 200000, sample_incoming 1 20 210000] []
     = [sample_incoming 1 10 200000, sample_incoming 1 20 210000]
   \<and> (case load_transaction sample_pg 100 blank_key_batch empty_db of
        Inl e \<Rightarrow> False
      | Inr db \<Rightarrow>
          map (\<lambda>t. (lv_listing_id t, lv_valid_from t, lv_valid_to t, lv_price t)) (listing_version db)
            = [(1, 10, None, Some 200000), (1, 20, None, Some 210000)])"
  by code_simp

text \<open>
  Claim C4, amended. Let the frame have the key column, and let the join of the staged
  rows with the listings return every pair once, in any order.

  \<^item> The deduplication leaves every key of the frame on exactly one row, a row of the
    frame, and no row of that key comes after it in the order by change date, then start
    date, missing dates last: the last value wins.

  \<^item> When the incoming-fact statement completes, the Delta Engine receives one incoming
    fact for every pair of a staged row and a listing whose \<open>external_listing_id\<close> is the
    row's trimmed, non-empty key. So it receives at most one incoming fact per listing when
    the trimmed keys of the staged batch are distinct and the listing ids are unique, and
    then at most one delta per listing when no listing has two open versions.

  \<^item> The trimmed keys of the staged batch are distinct when its key cells are those the
    deduplication leaves and no key of the frame has a blank at either end.
\<close>

theorem one_row_per_key_one_fact_per_listing:
  assumes "key \<in> set (df_columns df)"
    and "\<forall>xs. mset (ord xs) = mset xs"
  shows "distinct (series (DeduplicateBusinessKey to_datetime key df) key)
         \<and> set (series (DeduplicateBusinessKey to_datetime key df) key) = set (series df key)
         \<and> mset (df_rows (DeduplicateBusinessKey to_datetime key df)) \<subseteq># mset (df_rows df)
         \<and> series (DeduplicateBusinessKey to_datetime key df) key
             = map (nth_or (series df key)) (kept_index to_datetime key df)
         \<and> (\<forall>i \<in> set (kept_index to_datetime key df). \<forall>j < length (df_rows df).
               nth_or (series df key) j = nth_or (series df key) i \<longrightarrow>
               (nan_last (nth_or (datetime_column to_datetime ''change_date'' df) j) 0,
                nan_last (nth_or (datetime_column to_datetime ''start_date'' df) j) 0)
               \<le> (nan_last (nth_or (datetime_column to_datetime ''change_date'' df) i) 0,
                  nan_last (nth_or (datetime_column to_datetime ''start_date'' df) i) 0))
         \<and> (stg_listing_incoming tz ord now ls stg = Inr incoming \<longrightarrow>
               mset (map inc_listing_id incoming)
                 = mset (map (\<lambda>p. l_id (snd p)) (listing_join ls stg))
               \<and> (distinct (business_keys stg) \<and> distinct (map l_id ls) \<longrightarrow>
                    distinct (map inc_listing_id incoming)
                    \<and> (at_most_one_open lv \<longrightarrow>
                         distinct (map inc_listing_id (stg_delta incoming lv)))))
         \<and> (map sc_listing_id stg = series (DeduplicateBusinessKey to_datetime key df) key
               \<and> (\<forall>s. Some s \<in> set (series df key) \<longrightarrow> btrim s = s) \<longrightarrow>
             distinct (business_keys stg))"
proof -
  let ?out = "DeduplicateBusinessKey to_datetime key df"
  note a = dedup_keys(1) [OF assms(1), of to_datetime]
  note b = dedup_keys(2) [OF assms(1), of to_datetime]
  note c = dedup_rows [of to_datetime key df]
  note d = series_dedup [OF assms(1), of to_datetime key]
  have e: "\<forall>i \<in> set (kept_index to_datetime key df). \<forall>j < length (df_rows df).
               nth_or (series df key) j = nth_or (series df key) i \<longrightarrow>
               (nan_last (nth_or (datetime_column to_datetime ''change_date'' df) j) 0,
                nan_last (nth_or (datetime_column to_datetime ''start_date'' df) j) 0)
               \<le> (nan_last (nth_or (datetime_column to_datetime ''change_date'' df) i) 0,
                  nan_last (nth_or (datetime_column to_datetime ''start_date'' df) i) 0)"
    using kept_index_latest by blast
  have f: "mset (map inc_listing_id incoming)
                 = mset (map (\<lambda>p. l_id (snd p)) (listing_join ls stg))
               \<and> (distinct (business_keys stg) \<and> distinct (map l_id ls) \<longrightarrow>
                    distinct (map inc_listing_id incoming)
                    \<and> (at_most_one_open lv \<longrightarrow>
                         distinct (map inc_listing_id (stg_delta incoming lv))))"
    if run: "stg_listing_incoming tz ord now ls stg = Inr incoming"
  proof -
    from assms(2) have ord: "mset (ord (listing_join ls stg)) = mset (listing_join ls stg)"
      by simp
    have "distinct (map inc_listing_id incoming)
        \<and> (at_most_one_open lv \<longrightarrow> distinct (map inc_listing_id (stg_delta incoming lv)))"
      if "distinct (business_keys stg) \<and> distinct (map l_id ls)"
    proof -
      from that have "distinct (map inc_listing_id incoming)"
        using incoming_ids_distinct [OF run ord] by blast
      then show ?thesis using stg_delta_distinct by blast
    qed
    with stg_listing_incoming_mset [OF assms(2) run] show ?thesis by blast
  qed
  have g: "distinct (business_keys stg)"
    if "map sc_listing_id stg = series ?out key
               \<and> (\<forall>s. Some s \<in> set (series df key) \<longrightarrow> btrim s = s)"
  proof (rule business_keys_untrimmed)
    from that a show "distinct (map sc_listing_id stg)" by simp
    from that b show "\<forall>s. Some s \<in> set (map sc_listing_id stg) \<longrightarrow> btrim s = s" by simp
  qed
  from f have f': "stg_listing_incoming tz ord now ls stg = Inr incoming \<longrightarrow>
               mset (map inc_listing_id incoming)
                 = mset (map (\<lambda>p. l_id (snd p)) (listing_join ls stg))
               \<and> (distinct (business_keys stg) \<and> distinct (map l_id ls) \<longrightarrow>
                    distinct (map inc_listing_id incoming)
                    \<and> (at_most_one_open lv \<longrightarrow>
                         distinct (map inc_listing_id (stg_delta incoming lv))))"
    by (rule impI)
  from g have g': "map sc_listing_id stg = series ?out key
               \<and> (\<forall>s. Some s \<in> set (series df key) \<longrightarrow> btrim s = s) \<longrightarrow>
             distinct (business_keys stg)"
    by (rule impI)
  show ?thesis
    apply (rule conjI, rule a)
    apply (rule conjI, rule b)
    apply (rule conjI, rule c)
    apply (rule conjI, rule d)
    apply (rule conjI, rule e)
    apply (rule conjI, rule f')
    apply (rule g')
    done
qed

theorem one_row_per_key_one_fact_per_listing_witness:
  "kept_index sample_to_datetime ''listing_id'' repeated_key_frame = [0, 1]
   \<and> df_rows (DeduplicateBusinessKey sample_to_datetime ''listing_id'' repeated_key_frame)
     = [[Some ''A-100'', Some ''2024-02-01'', Some ''210000''],
        [Some ''A-101'', Some ''2024-01-01'', Some ''300000'']]
   \<and> distinct (series (DeduplicateBusinessKey sample_to_datetime ''listing_id'' repeated_key_frame)
                 ''listing_id'')
   \<and> distinct (business_keys
        [sample_row ''A-100'' ''2024-02-01'' ''210000'' ''75001'' ''bel appartement'',
         sample_row ''A-101'' ''2024-01-01'' ''300000'' ''75001'' ''bel appartement''])
   \<and> stg_listing_incoming sample_tz rev 100 [sample_listing 1 ''A-100'', sample_listing 2 ''A-101'']
       [sample_row ''A-100'' ''2024-02-01'' ''210000'' ''75001'' ''bel appartement'',
        sample_row ''A-101'' ''2024-01-01'' ''300000'' ''75001'' ''bel appartement'']
     = Inr [sample_incoming 2 10 300000, sample_incoming 1 20 210000]
   \<and> distinct (map inc_listing_id [sample_incoming 2 10 300000, sample_incoming 1 20 210000])"
proof -
  let ?df = repeated_key_frame
  let ?out = "DeduplicateBusinessKey sample_to_datetime ''listing_id'' repeated_key_frame"
  let ?ls = "[sample_listing 1 ''A-100'', sample_listing 2 ''A-101'']"
  let ?stg = "[sample_row ''A-100'' ''2024-02-01'' ''210000'' ''75001'' ''bel appartement'',
         sample_row ''A-101'' ''2024-01-01'' ''300000'' ''75001'' ''bel appartement'']"
  let ?inc = "[sample_incoming 2 10 300000, sample_incoming 1 20 210000]"
  have col: "''listing_id'' \<in> set (df_columns ?df)"
    by (simp add: repeated_key_frame_def)
  have ord: "\<forall>xs :: (stg_row \<times> listing_row) list. mset (rev xs) = mset xs"
    by simp
  have kept: "kept_index sample_to_datetime ''listing_id'' ?df = [0, 1]"
    by code_simp
  have rows: "df_rows ?out = [[Some ''A-100'', Some ''2024-02-01'', Some ''210000''],
        [Some ''A-101'', Some ''2024-01-01'', Some ''300000'']]"
    by code_simp
  have cells: "map sc_listing_id ?stg = series ?out ''listing_id''"
    by code_simp
  have keys: "series ?df ''listing_id'' = [Some ''A-100'', Some ''A-101'', Some ''A-100'']"
    by code_simp
  have "btrim ''A-100'' = ''A-100''" "btrim ''A-101'' = ''A-101''"
    by code_simp+
  then have trimmed: "\<forall>s. Some s \<in> set (series ?df ''listing_id'') \<longrightarrow> btrim s = s"
    unfolding keys by auto
  have run: "stg_listing_incoming sample_tz rev 100 ?ls ?stg = Inr ?inc"
    by code_simp
  have ids: "distinct (map l_id ?ls)"
    by (simp add: sample_listing_def)
  note main = one_row_per_key_one_fact_per_listing [OF col ord, where to_datetime = sample_to_datetime
      and tz = sample_tz and now = 100 and ls = ?ls and stg = ?stg and incoming = ?inc
      and lv = "[]"]
  from main have a: "distinct (series ?out ''listing_id'')"
    by (rule conjunct1)
  from main cells trimmed have b: "distinct (business_keys ?stg)"
    by blast
  from main run b ids have c: "distinct (map inc_listing_id ?inc)"
    by blast
  from kept rows a b run c show ?thesis
    by (intro conjI)
qed

section \<open>Descriptions\<close>












section \<open>Malformed fields\<close>


























end
